theory Spec2Isabelle
  imports Main "HOL-Library.Monad_Syntax"
begin

section \<open>Go values handled by package errors\<close>

text \<open>
  The package stores and compares Go interface values. An interface value is a dynamic type
  together with a dynamic value; \<open>==\<close> on two interface values compares both. The
  embedding keeps exactly that much: the dynamic type, an identity (the address for a pointer,
  the contents for a value type) and, for error values of other packages, the text their
  \<open>Error()\<close> method returns.
\<close>

type_synonym addr = nat

text \<open>
  A Go type as \<open>reflect.TypeOf(x).String()\<close> prints it: a named type \<open>pkg.Name\<close> or a
  pointer to one. The flag of a named type says whether \<open>==\<close> is defined on its values
  (a struct holding a slice, or a slice type with an \<open>Error\<close> method, is not comparable).
\<close>

datatype gotype = Named string string bool | PtrTo gotype

fun type_String :: "gotype \<Rightarrow> string" where
  "type_String (Named pkg name c) = pkg @ ''.'' @ name"
| "type_String (PtrTo t) = ''*'' @ type_String t"

fun comparable :: "gotype \<Rightarrow> bool" where
  "comparable (Named pkg name c) = c"
| "comparable (PtrTo t) = True"

text \<open>
  A value of interface type \<open>error\<close>: the nil interface, a \<open>*CommonError\<close> (the nil
  pointer is \<open>CommonPtr None\<close>, a non-nil interface value holding a nil pointer), or an
  error of another type, given by its dynamic type, its identity and its message.
\<close>

datatype goerror = NilErr | CommonPtr "addr option" | Foreign gotype nat string

text \<open>Non-error values that callers pass as \<open>interface{}\<close>: strings, integers, booleans.\<close>

datatype basic = GoString string | GoInt int | GoBool bool

text \<open>A value of type \<open>interface{}\<close>; the nil interface is \<open>AnError NilErr\<close>.\<close>

datatype goval = AnError goerror | NonError basic

text \<open>
  Program counters. The frames of the package's own functions are symbolic; \<open>PC n\<close> is a
  return address in the calling program, and \<open>PC 0\<close> the zero \<open>uintptr\<close>.
\<close>

datatype uintptr = PC_Callers | PC_New | PC_Wrap | PC_WrapPrefix | PC_Errorf | PC nat

text \<open>A slice: the address of its backing array and its elements. The nil slice is \<open>None\<close>.\<close>

datatype 'a slice = Slice addr "'a list"

fun elems :: "'a slice option \<Rightarrow> 'a list" where
  "elems None = []"
| "elems (Some (Slice b xs)) = xs"

definition len :: "'a slice option \<Rightarrow> nat" where
  "len sl = length (elems sl)"

text \<open>
  Modelled from the spec: the type \<open>StackFrame\<close> is declared in a file of the repository
  that is not among the sources. The spec's data model gives a Resolved Frame the raw
  address and four best-effort strings.
\<close>

record StackFrame =
  address :: uintptr
  fileName :: string
  lineNumber :: string
  functionName :: string
  packageOrModuleName :: string

record CommonError =
  Err :: goerror
  stack :: "uintptr slice option"
  frames :: "StackFrame slice option"
  prefix :: string

text \<open>
  The state of the program as far as the package reads and writes it: the objects of type
  \<open>CommonError\<close> by address, the next address the allocator hands out, the package
  variable \<open>MaxStackDepth\<close>, the symbol table of the running binary, which the frame
  resolver consults, and \<open>make_limit\<close>, the largest length that \<open>make\<close> accepts for a
  \<open>[]uintptr\<close> on the platform (the allocator's largest block divided by the size of a
  \<open>uintptr\<close>; \<open>2^45\<close> on linux/amd64).
\<close>

record state =
  heap :: "addr \<rightharpoonup> CommonError"
  next_addr :: addr
  MaxStackDepth :: int
  symtab :: "uintptr \<rightharpoonup> string \<times> string \<times> string \<times> string"
  make_limit :: int

text \<open>
  Run-time panics. \<open>InvalidPointer\<close> is the read of an address that holds no object; Go's
  memory safety excludes it, and it is kept so that every function of the model is total.
\<close>

datatype panic = NilDereference | MakeSliceLenOutOfRange | UncomparableType | InvalidPointer

definition alloc :: "state \<Rightarrow> addr \<times> state" where
  "alloc s = (next_addr s, s\<lparr>next_addr := Suc (next_addr s)\<rparr>)"

text \<open>
  \<open>make([]uintptr, n)\<close> panics (makeslice: len out of range) when \<open>n\<close> is negative or above
  the allocator's limit. Running out of memory below that limit, on which the Go runtime
  stops the whole program at any allocation, is not part of the model.
\<close>

definition make_accepts :: "state \<Rightarrow> int \<Rightarrow> bool" where
  "make_accepts s n = (0 \<le> n \<and> n \<le> make_limit s)"

text \<open>
  Sums of Go's \<open>int\<close> wrap around; the type has 64 bits on the platforms the model is
  about.
\<close>

definition int_wrap :: "int \<Rightarrow> int" where
  "int_wrap x = (x + 2 ^ 63) mod 2 ^ 64 - 2 ^ 63"

text \<open>
  The state when the package has been initialised and nothing is allocated yet:
  \<open>var MaxStackDepth = 50\<close>. The arguments are the platform's limit and the symbol table.
\<close>

definition init_state ::
  "int \<Rightarrow> (uintptr \<rightharpoonup> string \<times> string \<times> string \<times> string) \<Rightarrow> state" where
  "init_state limit symbols =
     \<lparr>heap = Map.empty, next_addr = 0, MaxStackDepth = 50, symtab = symbols,
      make_limit = limit\<rparr>"

section \<open>The fragment of package fmt that the package calls\<close>

text \<open>
  \<open>fmt.Sprintf\<close> belongs to the Go standard library. The model covers the directives
  \<open>%v\<close>, \<open>%d\<close>, \<open>%s\<close>, \<open>%t\<close> and \<open>%%\<close> on nil, strings, integers and booleans, with
  fmt's texts for a missing operand, a surplus operand, a verb that does not fit the operand
  and a format ending in \<open>%\<close>. Flags, widths and the other verbs are outside the fragment.
  An operand is \<open>None\<close> for nil.
\<close>

type_synonym operand = "basic option"

definition digit :: "nat \<Rightarrow> char" where
  "digit d = ''0123456789'' ! d"

fun show_nat :: "nat \<Rightarrow> string" where
  "show_nat n = (if n < 10 then [digit n] else show_nat (n div 10) @ [digit (n mod 10)])"

definition show_int :: "int \<Rightarrow> string" where
  "show_int i = (if i < 0 then ''-'' @ show_nat (nat (- i)) else show_nat (nat i))"

fun basic_type :: "basic \<Rightarrow> string" where
  "basic_type (GoString s) = ''string''"
| "basic_type (GoInt i) = ''int''"
| "basic_type (GoBool b) = ''bool''"

fun format_v :: "operand \<Rightarrow> string" where
  "format_v None = ''<nil>''"
| "format_v (Some (GoString s)) = s"
| "format_v (Some (GoInt i)) = show_int i"
| "format_v (Some (GoBool b)) = (if b then ''true'' else ''false'')"

fun typed_operand :: "operand \<Rightarrow> string" where
  "typed_operand None = ''<nil>''"
| "typed_operand (Some b) = basic_type b @ ''='' @ format_v (Some b)"

definition bad_verb :: "char \<Rightarrow> operand \<Rightarrow> string" where
  "bad_verb c a = ''%!'' @ [c] @ ''('' @ typed_operand a @ '')''"

fun format_verb :: "char \<Rightarrow> operand \<Rightarrow> string" where
  "format_verb c None = (if c = CHR ''v'' then format_v None else bad_verb c None)"
| "format_verb c (Some (GoString s)) =
     (if c = CHR ''v'' \<or> c = CHR ''s'' then s else bad_verb c (Some (GoString s)))"
| "format_verb c (Some (GoInt i)) =
     (if c = CHR ''v'' \<or> c = CHR ''d'' then show_int i else bad_verb c (Some (GoInt i)))"
| "format_verb c (Some (GoBool b)) =
     (if c = CHR ''v'' \<or> c = CHR ''t'' then format_v (Some (GoBool b))
      else bad_verb c (Some (GoBool b)))"

fun extra_operands :: "operand list \<Rightarrow> string" where
  "extra_operands [] = []"
| "extra_operands [a] = typed_operand a"
| "extra_operands (a # b # bs) = typed_operand a @ '', '' @ extra_operands (b # bs)"

fun Sprintf :: "string \<Rightarrow> operand list \<Rightarrow> string" where
  "Sprintf [] [] = []"
| "Sprintf [] (a # as) = ''%!(EXTRA '' @ extra_operands (a # as) @ '')''"
| "Sprintf (c # fs) as =
     (if c \<noteq> CHR ''%'' then c # Sprintf fs as
      else (case fs of
              [] \<Rightarrow> ''%!(NOVERB)'' @ Sprintf [] as
            | v # fs' \<Rightarrow>
                if v = CHR ''%'' then CHR ''%'' # Sprintf fs' as
                else (case as of
                        [] \<Rightarrow> ''%!'' @ [v] @ ''(MISSING)'' @ Sprintf fs' []
                      | a # as' \<Rightarrow> format_verb v a @ Sprintf fs' as')))"

text \<open>
  \<open>fmt.Errorf\<close> without \<open>%w\<close> returns \<open>errors.New\<close> of the formatted text: a pointer
  to a freshly allocated \<open>errorString\<close> of the standard package errors.
\<close>

definition errorString :: gotype where
  "errorString = PtrTo (Named ''errors'' ''errorString'' True)"

definition fmt_Errorf :: "state \<Rightarrow> string \<Rightarrow> operand list \<Rightarrow> goerror \<times> state" where
  "fmt_Errorf s format a =
     (let (p, s1) = alloc s in (Foreign errorString p (Sprintf format a), s1))"

section \<open>The run-time system\<close>

text \<open>
  \<open>runtime.Callers(skip, pc)\<close> writes the return addresses of the active frames into
  \<open>pc\<close>, leaving out the innermost \<open>skip\<close> of them (frame 0 is \<open>Callers\<close> itself), and
  returns how many it wrote: at most \<open>len(pc)\<close>. A skip below zero leaves out nothing.
  The third argument lists the active frames, innermost first.
\<close>

definition runtime_Callers :: "int \<Rightarrow> nat \<Rightarrow> uintptr list \<Rightarrow> uintptr list" where
  "runtime_Callers skip n active = take n (drop (nat skip) active)"

section \<open>Package errors\<close>

text \<open>
  Reading a field through a \<open>*CommonError\<close>: the nil pointer panics. The type assertion
  \<open>e.(*CommonError)\<close> succeeds on every value of that dynamic type, the nil pointer
  included.
\<close>

definition deref :: "state \<Rightarrow> addr option \<Rightarrow> panic + CommonError" where
  "deref s p =
     (case p of
        None \<Rightarrow> Inl NilDereference
      | Some a \<Rightarrow> (case heap s a of None \<Rightarrow> Inl InvalidPointer | Some c \<Rightarrow> Inr c))"

fun as_CommonError :: "goerror \<Rightarrow> addr option option" where
  "as_CommonError (CommonPtr p) = Some p"
| "as_CommonError NilErr = None"
| "as_CommonError (Foreign t i m) = None"


text \<open>
  Every function takes the state and returns the new one with its result; a function that
  captures the stack also takes \<open>cs\<close>, the return addresses of its caller's active frames,
  innermost first.
\<close>

definition New :: "state \<Rightarrow> uintptr list \<Rightarrow> goval \<Rightarrow> panic + (addr option \<times> state)" where
  "New s cs e =
     (let (err, s1) = (case e of
                         AnError NilErr \<Rightarrow> fmt_Errorf s ''%v'' [None]
                       | AnError x \<Rightarrow> (x, s)
                       | NonError b \<Rightarrow> fmt_Errorf s ''%v'' [Some b])
      in if \<not> make_accepts s1 (MaxStackDepth s1) then Inl MakeSliceLenOutOfRange
         else let (b, s2) = alloc s1;
                  pcs = runtime_Callers 2 (nat (MaxStackDepth s1)) (PC_Callers # PC_New # cs);
                  (a, s3) = alloc s2
              in Inr (Some a,
                      s3\<lparr>heap := (heap s3)(a \<mapsto>
                        \<lparr>Err = err, stack = Some (Slice b pcs), frames = None, prefix = ''''\<rparr>)\<rparr>))"

definition Wrap :: "state \<Rightarrow> uintptr list \<Rightarrow> goval \<Rightarrow> int \<Rightarrow> panic + (addr option \<times> state)" where
  "Wrap s cs e skip =
     (case e of
        AnError (CommonPtr p) \<Rightarrow> Inr (p, s)
      | _ \<Rightarrow>
        (let (err, s1) = (case e of
                            AnError NilErr \<Rightarrow> fmt_Errorf s ''%v'' [None]
                          | AnError x \<Rightarrow> (x, s)
                          | NonError b \<Rightarrow> fmt_Errorf s ''%v'' [Some b])
         in if \<not> make_accepts s1 (MaxStackDepth s1) then Inl MakeSliceLenOutOfRange
            else let (b, s2) = alloc s1;
                     pcs = runtime_Callers (int_wrap (2 + skip)) (nat (MaxStackDepth s1))
                             (PC_Callers # PC_Wrap # cs);
                     (a, s3) = alloc s2
                 in Inr (Some a,
                         s3\<lparr>heap := (heap s3)(a \<mapsto>
                           \<lparr>Err = err, stack = Some (Slice b pcs), frames = None,
                            prefix = ''''\<rparr>)\<rparr>)))"

definition Unwrap :: "state \<Rightarrow> goerror \<Rightarrow> panic + (goerror \<times> state)" where
  "Unwrap s e =
     (case e of
        CommonPtr p \<Rightarrow> (case deref s p of Inl x \<Rightarrow> Inl x | Inr c \<Rightarrow> Inr (Err c, s))
      | Foreign t i m \<Rightarrow> Inr (e, s)
      | NilErr \<Rightarrow> Inr (fmt_Errorf s ''%v'' [None]))"

definition WrapPrefix ::
  "state \<Rightarrow> uintptr list \<Rightarrow> goval \<Rightarrow> string \<Rightarrow> int \<Rightarrow> panic + (addr option \<times> state)" where
  "WrapPrefix s cs e pre skip =
     (case Wrap s (PC_WrapPrefix # cs) e skip of
        Inl x \<Rightarrow> Inl x
      | Inr (err, s1) \<Rightarrow>
          (case err of
             None \<Rightarrow> Inl NilDereference
           | Some a \<Rightarrow>
               (case heap s1 a of
                  None \<Rightarrow> Inl InvalidPointer
                | Some c \<Rightarrow>
                    Inr (Some a,
                         s1\<lparr>heap := (heap s1)(a \<mapsto>
                           c\<lparr>prefix :=
                               (if prefix c \<noteq> ''''
                                then Sprintf ''%s: %s''
                                       [Some (GoString pre), Some (GoString (prefix c))]
                                else pre)\<rparr>)\<rparr>))))"

text \<open>
  \<open>==\<close> on two values of type \<open>error\<close>: equal dynamic types and equal dynamic values.
  It panics when both hold the same type and that type is not comparable.
\<close>

definition go_eq :: "goerror \<Rightarrow> goerror \<Rightarrow> panic + bool" where
  "go_eq x y =
     (case (x, y) of
        (Foreign t i m, Foreign t' i' m') \<Rightarrow>
          if t = t' \<and> \<not> comparable t then Inl UncomparableType else Inr (x = y)
      | _ \<Rightarrow> Inr (x = y))"

text \<open>
  \<open>Is\<close> and \<open>Error\<close> follow the \<open>Err\<close> fields from object to object, and a program can
  store a \<open>*CommonError\<close> into the exported field \<open>Err\<close> of an object it points to. On such
  a cycle the recursion does not end: the result \<open>None\<close>.
\<close>

partial_function (option) Is :: "state \<Rightarrow> goerror \<Rightarrow> goerror \<Rightarrow> (panic + bool) option" where
  "Is s e original =
     (case go_eq e original of
        Inl x \<Rightarrow> Some (Inl x)
      | Inr same \<Rightarrow>
          if same then Some (Inr True)
          else (case as_CommonError e of
                  Some p \<Rightarrow>
                    (case deref s p of
                       Inl x \<Rightarrow> Some (Inl x)
                     | Inr c \<Rightarrow> Is s (Err c) original)
                | None \<Rightarrow>
                    (case as_CommonError original of
                       Some p \<Rightarrow>
                         (case deref s p of
                            Inl x \<Rightarrow> Some (Inl x)
                          | Inr c \<Rightarrow> Is s e (Err c))
                     | None \<Rightarrow> Some (Inr False))))"

definition Errorf ::
  "state \<Rightarrow> uintptr list \<Rightarrow> string \<Rightarrow> operand list \<Rightarrow> panic + (addr option \<times> state)" where
  "Errorf s cs format a =
     (let (e, s1) = fmt_Errorf s format a in Wrap s1 (PC_Errorf # cs) (AnError e) 1)"

partial_function (option) Error :: "state \<Rightarrow> addr option \<Rightarrow> (panic + string) option" where
  "Error s err =
     (case deref s err of
        Inl x \<Rightarrow> Some (Inl x)
      | Inr c \<Rightarrow>
          Option.bind
            (case Err c of
               NilErr \<Rightarrow> Some (Inl NilDereference)
             | CommonPtr q \<Rightarrow> Error s q
             | Foreign t i m \<Rightarrow> Some (Inr m))
            (\<lambda>r. case r of
                   Inl x \<Rightarrow> Some (Inl x)
                 | Inr msg \<Rightarrow>
                     Some (Inr (if prefix c \<noteq> ''''
                                then Sprintf ''%s: %s''
                                       [Some (GoString (prefix c)), Some (GoString msg)]
                                else msg))))"

text \<open>
  Modelled from the spec: \<open>NewStackFrame\<close> and \<open>StackFrame.String\<close> are in a file of the
  repository that is not among the sources. By the spec, resolving an address never fails (an
  address the symbol table does not know gives the placeholder \<open>unknown\<close> in every field),
  and a frame renders as a block of two lines: the function, then the file and line number,
  indented.
\<close>

definition NewStackFrame :: "state \<Rightarrow> uintptr \<Rightarrow> StackFrame" where
  "NewStackFrame s pc =
     (case symtab s pc of
        None \<Rightarrow>
          \<lparr>address = pc, fileName = ''unknown'', lineNumber = ''unknown'',
           functionName = ''unknown'', packageOrModuleName = ''unknown''\<rparr>
      | Some (f, l, fn, pk) \<Rightarrow>
          \<lparr>address = pc, fileName = f, lineNumber = l, functionName = fn,
           packageOrModuleName = pk\<rparr>)"

definition newline :: char where
  "newline = CHR 0x0A"

definition tab :: char where
  "tab = CHR 0x09"

definition frame_String :: "StackFrame \<Rightarrow> string" where
  "frame_String frame =
     functionName frame @ [newline] @ [tab] @ fileName frame @ '':'' @ lineNumber frame
       @ [newline]"

text \<open>The zero value of \<open>StackFrame\<close>, which \<open>make\<close> fills a new slice with.\<close>

definition zero_StackFrame :: StackFrame where
  "zero_StackFrame =
     \<lparr>address = PC 0, fileName = '''', lineNumber = '''', functionName = '''',
      packageOrModuleName = ''''\<rparr>"

text \<open>The loop of \<open>StackFrames\<close>: \<open>frames[i] = NewStackFrame(pc)\<close> for each \<open>i, pc\<close>.\<close>

fun fill_frames :: "state \<Rightarrow> nat \<Rightarrow> uintptr list \<Rightarrow> StackFrame list \<Rightarrow> StackFrame list" where
  "fill_frames s i [] fs = fs"
| "fill_frames s i (pc # pcs) fs = fill_frames s (Suc i) pcs (fs[i := NewStackFrame s pc])"

definition StackFrames ::
  "state \<Rightarrow> addr option \<Rightarrow> panic + (StackFrame slice option \<times> state)" where
  "StackFrames s err =
     (case err of
        None \<Rightarrow> Inl NilDereference
      | Some a \<Rightarrow>
          (case heap s a of
             None \<Rightarrow> Inl InvalidPointer
           | Some c \<Rightarrow>
               (case frames c of
                  None \<Rightarrow>
                    (let (b, s1) = alloc s;
                         made = replicate (len (stack c)) zero_StackFrame;
                         filled = fill_frames s 0 (elems (stack c)) made
                     in Inr (Some (Slice b filled),
                             s1\<lparr>heap := (heap s1)(a \<mapsto> c\<lparr>frames := Some (Slice b filled)\<rparr>)\<rparr>))
                | Some fs \<Rightarrow> Inr (Some fs, s))))"

definition Stack :: "state \<Rightarrow> addr option \<Rightarrow> panic + (string \<times> state)" where
  "Stack s err =
     (case StackFrames s err of
        Inl x \<Rightarrow> Inl x
      | Inr (fs, s1) \<Rightarrow> Inr (foldl (\<lambda>buf frame. buf @ frame_String frame) [] (elems fs), s1))"

definition ErrorStack :: "state \<Rightarrow> addr option \<Rightarrow> (panic + (string \<times> state)) option" where
  "ErrorStack s err =
     Option.bind (Error s err)
       (\<lambda>r. case r of
              Inl x \<Rightarrow> Some (Inl x)
            | Inr msg \<Rightarrow>
                (case Stack s err of
                   Inl x \<Rightarrow> Some (Inl x)
                 | Inr (st, s1) \<Rightarrow> Some (Inr (msg @ [newline] @ st, s1))))"

text \<open>
  Modelled from the spec: the type \<open>uncaughtPanic\<close>, which \<open>TypeName\<close> tests for, is
  declared in a file of the repository that is not among the sources. By the spec it is the
  type of an underlying value that comes from a recovered panic.
\<close>

definition uncaughtPanic :: gotype where
  "uncaughtPanic = Named ''errors'' ''uncaughtPanic'' True"

text \<open>The dynamic type of an interface value; the nil interface has none.\<close>

fun dynamic_type :: "goerror \<Rightarrow> gotype option" where
  "dynamic_type NilErr = None"
| "dynamic_type (CommonPtr p) = Some (PtrTo (Named ''errors'' ''CommonError'' True))"
| "dynamic_type (Foreign t i m) = Some t"

text \<open>
  \<open>reflect.TypeOf\<close> of the nil interface is the nil \<open>Type\<close>, and calling \<open>String\<close> on it
  panics.
\<close>

definition TypeName :: "state \<Rightarrow> addr option \<Rightarrow> panic + string" where
  "TypeName s err =
     (case deref s err of
        Inl x \<Rightarrow> Inl x
      | Inr c \<Rightarrow>
          if dynamic_type (Err c) = Some uncaughtPanic then Inr ''panic''
          else (case dynamic_type (Err c) of
                  None \<Rightarrow> Inl NilDereference
                | Some t \<Rightarrow> Inr (type_String t)))"

definition TypeErrorStack :: "state \<Rightarrow> addr option \<Rightarrow> (panic + (string \<times> state)) option" where
  "TypeErrorStack s err =
     (case TypeName s err of
        Inl x \<Rightarrow> Some (Inl x)
      | Inr ty \<Rightarrow>
          Option.bind (Error s err)
            (\<lambda>r. case r of
                   Inl x \<Rightarrow> Some (Inl x)
                 | Inr msg \<Rightarrow>
                     (case Stack s err of
                        Inl x \<Rightarrow> Some (Inl x)
                      | Inr (st, s1) \<Rightarrow> Some (Inr (ty @ '' '' @ msg @ [newline] @ st, s1)))))"

text \<open>
  \<open>Recover\<close> (recover.go) returns the text \<open>runtime.Stack\<close> writes for the calling
  goroutine, cut to the \<open>1<<16\<close> bytes of its buffer. The argument is that text.
\<close>

definition Recover :: "string \<Rightarrow> string" where
  "Recover formatted = take (2 ^ 16) formatted"

section \<open>Notions used to state the properties\<close>

text \<open>
  A method call \<open>e.Error()\<close> on a value of interface type \<open>error\<close>, as \<open>Error\<close> makes it
  on the field \<open>Err\<close>: a panic on the nil interface, \<open>Error\<close> above on a \<open>*CommonError\<close>,
  the message of any other error.
\<close>

definition iface_Error :: "state \<Rightarrow> goerror \<Rightarrow> (panic + string) option" where
  "iface_Error s e =
     (case e of
        NilErr \<Rightarrow> Some (Inl NilDereference)
      | CommonPtr q \<Rightarrow> Error s q
      | Foreign t i m \<Rightarrow> Some (Inr m))"

text \<open>
  The spec's fully-unwrapped underlying value of an error: follow the field \<open>Err\<close> until the
  value is no \<open>*CommonError\<close>. This definition follows the spec's words, not a function of
  the source; \<open>Is\<close> above is compared with it.
\<close>

partial_function (option) fully_unwrapped :: "state \<Rightarrow> goerror \<Rightarrow> (panic + goerror) option" where
  "fully_unwrapped s e =
     (case as_CommonError e of
        None \<Rightarrow> Some (Inr e)
      | Some p \<Rightarrow>
          (case deref s p of
             Inl x \<Rightarrow> Some (Inl x)
           | Inr c \<Rightarrow> fully_unwrapped s (Err c)))"

text \<open>
  The same as a relation, for induction: \<open>unwraps s e x\<close> when the chain of \<open>Err\<close> fields from
  \<open>e\<close> ends, after finitely many objects, in the value \<open>x\<close> that is no \<open>*CommonError\<close>.
\<close>

inductive unwraps :: "state \<Rightarrow> goerror \<Rightarrow> goerror \<Rightarrow> bool" for s where
  unwraps_end: "as_CommonError e = None \<Longrightarrow> unwraps s e e"
| unwraps_step: "heap s a = Some c \<Longrightarrow> unwraps s (Err c) x \<Longrightarrow> unwraps s (CommonPtr (Some a)) x"

text \<open>
  \<open>renders s e n u\<close>: the call \<open>e.Error()\<close> passes through \<open>n\<close> objects of type
  \<open>CommonError\<close>, reaches an error of another type and returns the text \<open>u\<close>.
\<close>

inductive renders :: "state \<Rightarrow> goerror \<Rightarrow> nat \<Rightarrow> string \<Rightarrow> bool" for s where
  renders_foreign: "renders s (Foreign t i m) 0 m"
| renders_common:
    "heap s a = Some c \<Longrightarrow> renders s (Err c) n u \<Longrightarrow>
     renders s (CommonPtr (Some a)) (Suc n) (if prefix c \<noteq> '''' then prefix c @ '': '' @ u else u)"

text \<open>
  Calling \<open>StackFrames\<close> on the same error \<open>n + 1\<close> times in a row: the result of the last
  call.
\<close>

fun StackFrames_again ::
  "nat \<Rightarrow> state \<Rightarrow> addr option \<Rightarrow> panic + (StackFrame slice option \<times> state)" where
  "StackFrames_again 0 s err = StackFrames s err"
| "StackFrames_again (Suc n) s err =
     (case StackFrames s err of
        Inl x \<Rightarrow> Inl x
      | Inr (fs, s1) \<Rightarrow> StackFrames_again n s1 err)"

text \<open>
  The allocator never hands out an address twice: every object lies below \<open>next_addr\<close>.
\<close>

definition allocated :: "state \<Rightarrow> bool" where
  "allocated s = (\<forall>a. a \<in> dom (heap s) \<longrightarrow> a < next_addr s)"

section \<open>A small program run\<close>

text \<open>
  A program that holds one error of the standard library at address 0,
  \<open>errors.New("boom")\<close>, and has not changed \<open>MaxStackDepth\<close>. Its calls come from a
  frame at \<open>PC 7\<close> in \<open>main.main\<close>, called from a frame the symbol table does not know.
\<close>

definition boom :: goerror where
  "boom = Foreign errorString 0 ''boom''"

definition main_stack :: "uintptr list" where
  "main_stack = [PC 7, PC 8]"

definition initial :: state where
  "initial =
     (init_state (2 ^ 45) [PC 7 \<mapsto> (''main.go'', ''12'', ''main.main'', ''main'')])\<lparr>next_addr := 1\<rparr>"

text \<open>The states after \<open>e1 := New(boom)\<close>, then \<open>e2 := New(e1)\<close>, then \<open>e3 := New(boom)\<close>.\<close>

definition once :: state where
  "once = initial\<lparr>next_addr := 3,
     heap := [2 \<mapsto> \<lparr>Err = boom, stack = Some (Slice 1 main_stack), frames = None,
                     prefix = ''''\<rparr>]\<rparr>"

definition twice :: state where
  "twice = once\<lparr>next_addr := 5,
     heap := (heap once)(4 \<mapsto> \<lparr>Err = CommonPtr (Some 2), stack = Some (Slice 3 main_stack),
                                  frames = None, prefix = ''''\<rparr>)\<rparr>"

definition thrice :: state where
  "thrice = twice\<lparr>next_addr := 7,
     heap := (heap twice)(6 \<mapsto> \<lparr>Err = boom, stack = Some (Slice 5 main_stack),
                                   frames = None, prefix = ''''\<rparr>)\<rparr>"

section \<open>fmt and the run-time system\<close>

lemma Sprintf_v: "Sprintf ''%v'' [a] = format_v a"
  by (cases a rule: format_v.cases) simp_all

lemma Sprintf_join: "Sprintf ''%s: %s'' [Some (GoString a), Some (GoString b)] = a @ '': '' @ b"
  by simp

lemma int_wrap_in_range: "- (2 ^ 63) \<le> x \<Longrightarrow> x < 2 ^ 63 \<Longrightarrow> int_wrap x = x"
  by (simp add: int_wrap_def)

lemma int_wrap_2: "int_wrap 2 = 2"
  by (simp add: int_wrap_in_range)

lemma int_wrap_3: "int_wrap 3 = 3"
  by (simp add: int_wrap_in_range)

lemma Callers_New: "runtime_Callers 2 n (PC_Callers # PC_New # cs) = take n cs"
  by (simp add: runtime_Callers_def)

lemma Callers_Wrap_0:
  "runtime_Callers (int_wrap 2) n (PC_Callers # PC_Wrap # cs) = take n cs"
  by (simp add: runtime_Callers_def int_wrap_2)

lemma Callers_Wrap_1:
  "runtime_Callers (int_wrap 3) n (PC_Callers # PC_Wrap # PC_Errorf # cs) = take n cs"
  by (simp add: runtime_Callers_def int_wrap_3)

lemma length_Callers: "length (runtime_Callers k n active) \<le> n"
  by (simp add: runtime_Callers_def)

text \<open>Whether \<open>make\<close> accepts a length depends on the platform's limit only.\<close>

declare make_accepts_def [simp]

section \<open>What the constructors return\<close>

lemma New_non_error:
  assumes "make_accepts s (MaxStackDepth s)"
  shows "New s cs (NonError b) =
    Inr (Some (next_addr s + 2),
         s\<lparr>next_addr := next_addr s + 3,
           heap := (heap s)(next_addr s + 2 \<mapsto>
             \<lparr>Err = Foreign errorString (next_addr s) (format_v (Some b)),
              stack = Some (Slice (next_addr s + 1) (take (nat (MaxStackDepth s)) cs)),
              frames = None, prefix = ''''\<rparr>)\<rparr>)"
  using assms
  by (simp add: New_def fmt_Errorf_def alloc_def Callers_New Sprintf_v del: Sprintf.simps)

lemma New_nil:
  assumes "make_accepts s (MaxStackDepth s)"
  shows "New s cs (AnError NilErr) =
    Inr (Some (next_addr s + 2),
         s\<lparr>next_addr := next_addr s + 3,
           heap := (heap s)(next_addr s + 2 \<mapsto>
             \<lparr>Err = Foreign errorString (next_addr s) ''<nil>'',
              stack = Some (Slice (next_addr s + 1) (take (nat (MaxStackDepth s)) cs)),
              frames = None, prefix = ''''\<rparr>)\<rparr>)"
  using assms
  by (simp add: New_def fmt_Errorf_def alloc_def Callers_New Sprintf_v del: Sprintf.simps)

lemma New_error:
  assumes "make_accepts s (MaxStackDepth s)" "e \<noteq> NilErr"
  shows "New s cs (AnError e) =
    Inr (Some (next_addr s + 1),
         s\<lparr>next_addr := next_addr s + 2,
           heap := (heap s)(next_addr s + 1 \<mapsto>
             \<lparr>Err = e,
              stack = Some (Slice (next_addr s) (take (nat (MaxStackDepth s)) cs)),
              frames = None, prefix = ''''\<rparr>)\<rparr>)"
  using assms
  by (cases e) (simp_all add: New_def alloc_def Callers_New)

lemma Wrap_annotated: "Wrap s cs (AnError (CommonPtr p)) k = Inr (p, s)"
  by (simp add: Wrap_def)

lemma Wrap_non_error:
  assumes "make_accepts s (MaxStackDepth s)"
  shows "Wrap s cs (NonError b) k =
    Inr (Some (next_addr s + 2),
         s\<lparr>next_addr := next_addr s + 3,
           heap := (heap s)(next_addr s + 2 \<mapsto>
             \<lparr>Err = Foreign errorString (next_addr s) (format_v (Some b)),
              stack = Some (Slice (next_addr s + 1)
                (runtime_Callers (int_wrap (2 + k)) (nat (MaxStackDepth s)) (PC_Callers # PC_Wrap # cs))),
              frames = None, prefix = ''''\<rparr>)\<rparr>)"
  using assms
  by (simp add: Wrap_def fmt_Errorf_def alloc_def Sprintf_v del: Sprintf.simps)

lemma Wrap_nil:
  assumes "make_accepts s (MaxStackDepth s)"
  shows "Wrap s cs (AnError NilErr) k =
    Inr (Some (next_addr s + 2),
         s\<lparr>next_addr := next_addr s + 3,
           heap := (heap s)(next_addr s + 2 \<mapsto>
             \<lparr>Err = Foreign errorString (next_addr s) ''<nil>'',
              stack = Some (Slice (next_addr s + 1)
                (runtime_Callers (int_wrap (2 + k)) (nat (MaxStackDepth s)) (PC_Callers # PC_Wrap # cs))),
              frames = None, prefix = ''''\<rparr>)\<rparr>)"
  using assms
  by (simp add: Wrap_def fmt_Errorf_def alloc_def Sprintf_v del: Sprintf.simps)

lemma Wrap_foreign:
  assumes "make_accepts s (MaxStackDepth s)"
  shows "Wrap s cs (AnError (Foreign t i m)) k =
    Inr (Some (next_addr s + 1),
         s\<lparr>next_addr := next_addr s + 2,
           heap := (heap s)(next_addr s + 1 \<mapsto>
             \<lparr>Err = Foreign t i m,
              stack = Some (Slice (next_addr s)
                (runtime_Callers (int_wrap (2 + k)) (nat (MaxStackDepth s)) (PC_Callers # PC_Wrap # cs))),
              frames = None, prefix = ''''\<rparr>)\<rparr>)"
  using assms
  by (simp add: Wrap_def alloc_def)

section \<open>Reading through pointers\<close>

lemma deref_Some: "deref s (Some a) = (case heap s a of None \<Rightarrow> Inl InvalidPointer | Some c \<Rightarrow> Inr c)"
  by (simp add: deref_def)

lemma deref_Inr: "deref s p = Inr c \<longleftrightarrow> (\<exists>a. p = Some a \<and> heap s a = Some c)"
  by (auto simp: deref_def split: option.splits)

lemma Error_unfold:
  "Error s err =
     (case deref s err of
        Inl x \<Rightarrow> Some (Inl x)
      | Inr c \<Rightarrow>
          Option.bind (iface_Error s (Err c))
            (\<lambda>r. case r of
                   Inl x \<Rightarrow> Some (Inl x)
                 | Inr msg \<Rightarrow>
                     Some (Inr (if prefix c \<noteq> '''' then prefix c @ '': '' @ msg else msg))))"
  by (subst Error.simps) (simp only: iface_Error_def Sprintf_join)

lemma Error_of_foreign:
  assumes "heap s a = Some c" "Err c = Foreign t i m"
  shows "Error s (Some a) = Some (Inr (if prefix c \<noteq> '''' then prefix c @ '': '' @ m else m))"
  using assms by (simp add: Error_unfold deref_Some iface_Error_def)

section \<open>Resolving and rendering frames\<close>

lemma fill_frames_map:
  "length fs = i + length pcs \<Longrightarrow>
   fill_frames s i pcs fs = take i fs @ map (NewStackFrame s) pcs"
proof (induction pcs arbitrary: i fs)
  case Nil
  then show ?case by simp
next
  case (Cons pc pcs)
  then have i: "i < length fs" by simp
  have "fill_frames s (Suc i) pcs (fs[i := NewStackFrame s pc]) =
        take (Suc i) (fs[i := NewStackFrame s pc]) @ map (NewStackFrame s) pcs"
    using Cons.prems by (intro Cons.IH) simp
  also have "take (Suc i) (fs[i := NewStackFrame s pc]) = take i fs @ [NewStackFrame s pc]"
    using i by (simp add: take_Suc_conv_app_nth)
  finally show ?case by simp
qed

lemma fill_frames_made:
  "fill_frames s 0 pcs (replicate (length pcs) z) = map (NewStackFrame s) pcs"
  by (simp add: fill_frames_map)

lemma StackFrames_first:
  assumes "heap s a = Some c" "frames c = None"
  shows "StackFrames s (Some a) =
    Inr (Some (Slice (next_addr s) (map (NewStackFrame s) (elems (stack c)))),
         s\<lparr>next_addr := Suc (next_addr s),
           heap := (heap s)(a \<mapsto>
             c\<lparr>frames := Some (Slice (next_addr s) (map (NewStackFrame s) (elems (stack c))))\<rparr>)\<rparr>)"
  using assms by (simp add: StackFrames_def alloc_def len_def fill_frames_made Let_def)

lemma StackFrames_cached:
  assumes "heap s a = Some c" "frames c = Some fs"
  shows "StackFrames s (Some a) = Inr (Some fs, s)"
  using assms by (simp add: StackFrames_def)

lemma foldl_append_concat: "foldl (\<lambda>buf x. buf @ g x) acc xs = acc @ concat (map g xs)"
  by (induction xs arbitrary: acc) simp_all

lemma Stack_first:
  assumes "heap s a = Some c" "frames c = None"
  shows "Stack s (Some a) =
    Inr (concat (map (\<lambda>pc. frame_String (NewStackFrame s pc)) (elems (stack c))),
         s\<lparr>next_addr := Suc (next_addr s),
           heap := (heap s)(a \<mapsto>
             c\<lparr>frames := Some (Slice (next_addr s) (map (NewStackFrame s) (elems (stack c))))\<rparr>)\<rparr>)"
  by (simp add: Stack_def StackFrames_first[OF assms] foldl_append_concat comp_def)

lemma frame_String_not_empty: "frame_String f \<noteq> []"
  by (simp add: frame_String_def)

section \<open>Claims\<close>

text \<open>
  C1. For every value \<open>v\<close> that is not an error, nil included, \<open>New(v)\<close> returns an error with
  empty prefix whose \<open>Error()\<close> is the text \<open>fmt\<close> gives \<open>v\<close> under \<open>%v\<close>. For \<open>"boom"\<close>
  that text is \<open>boom\<close>, and \<open>ErrorStack()\<close> is \<open>boom\<close>, a newline and the blocks of the
  captured frames, in order; no block is empty, and there is at least one of them when
  \<open>MaxStackDepth\<close> is positive and the caller has a frame. \<open>New\<close> returns when \<open>make\<close>
  accepts \<open>MaxStackDepth\<close> as a length, as it does the initial 50.
\<close>

theorem New_Error_is_default_format:
  assumes "make_accepts s (MaxStackDepth s)"
  shows
    "(\<exists>a s1 c. New s cs (NonError v) = Inr (Some a, s1) \<and> heap s1 a = Some c \<and> prefix c = []
        \<and> Error s1 (Some a) = Some (Inr (Sprintf ''%v'' [Some v])))
     \<and> (\<exists>a s1 c. New s cs (AnError NilErr) = Inr (Some a, s1) \<and> heap s1 a = Some c
        \<and> prefix c = [] \<and> Error s1 (Some a) = Some (Inr (Sprintf ''%v'' [None])))
     \<and> (\<exists>a s1 s2. New s cs (NonError (GoString ''boom'')) = Inr (Some a, s1)
        \<and> Error s1 (Some a) = Some (Inr ''boom'')
        \<and> ErrorStack s1 (Some a) =
            Some (Inr (''boom'' @ [newline] @
                       concat (map (\<lambda>pc. frame_String (NewStackFrame s pc))
                                 (take (nat (MaxStackDepth s)) cs)), s2)))
     \<and> (\<forall>pc. frame_String (NewStackFrame s pc) \<noteq> [])
     \<and> (0 < MaxStackDepth s \<and> cs \<noteq> [] \<longrightarrow> take (nat (MaxStackDepth s)) cs \<noteq> [])"
proof -
  have non_error: "\<exists>a s1 c. New s cs (NonError v) = Inr (Some a, s1) \<and> heap s1 a = Some c
      \<and> prefix c = [] \<and> Error s1 (Some a) = Some (Inr (Sprintf ''%v'' [Some v]))" for v
    unfolding New_non_error[OF assms] Sprintf_v
    by (simp add: Error_unfold deref_Some iface_Error_def)
  have nil: "\<exists>a s1 c. New s cs (AnError NilErr) = Inr (Some a, s1) \<and> heap s1 a = Some c
      \<and> prefix c = [] \<and> Error s1 (Some a) = Some (Inr (Sprintf ''%v'' [None]))"
    unfolding New_nil[OF assms] Sprintf_v
    by (simp add: Error_unfold deref_Some iface_Error_def)
  have boom: "\<exists>a s1 s2. New s cs (NonError (GoString ''boom'')) = Inr (Some a, s1)
        \<and> Error s1 (Some a) = Some (Inr ''boom'')
        \<and> ErrorStack s1 (Some a) =
            Some (Inr (''boom'' @ [newline] @
                       concat (map (\<lambda>pc. frame_String (NewStackFrame s pc))
                                 (take (nat (MaxStackDepth s)) cs)), s2))"
    unfolding New_non_error[OF assms]
    by (simp add: Error_unfold deref_Some iface_Error_def ErrorStack_def Stack_first
          NewStackFrame_def)
  have "take (nat (MaxStackDepth s)) cs \<noteq> []" if "0 < MaxStackDepth s" "cs \<noteq> []"
    using that by (cases cs) (simp_all add: take_Cons')
  with non_error nil boom frame_String_not_empty show ?thesis by blast
qed

theorem New_Error_is_default_format_witness:
  "(\<exists>a s1 s2. New initial main_stack (NonError (GoString ''boom'')) = Inr (Some a, s1)
        \<and> Error s1 (Some a) = Some (Inr ''boom'')
        \<and> ErrorStack s1 (Some a) =
            Some (Inr (''boom'' @ [newline] @ ''main.main'' @ [newline, tab] @ ''main.go:12''
                       @ [newline] @ ''unknown'' @ [newline, tab] @ ''unknown:unknown''
                       @ [newline], s2)))"
  using New_Error_is_default_format[of initial main_stack "GoString ''boom''"]
  by (simp add: initial_def init_state_def main_stack_def NewStackFrame_def frame_String_def)

text \<open>
  C3. \<open>Wrap\<close> of a \<open>*CommonError\<close> returns that pointer and leaves the state as it is, for
  every skip; so wrapping the result of a \<open>Wrap\<close> again gives the same object, whose
  captured stack is the one captured first.
\<close>

theorem Wrap_of_annotated_is_identity:
  "Wrap s cs (AnError (CommonPtr p)) skip1 = Inr (p, s)
   \<and> (\<exists>r s1. Wrap s cs (AnError (CommonPtr p)) skip1 = Inr (r, s1)
         \<and> Wrap s1 cs' (AnError (CommonPtr r)) skip2 = Inr (r, s1) \<and> r = p \<and> s1 = s)
   \<and> (Wrap s cs e skip1 = Inr (r', s') \<longrightarrow>
         Wrap s' cs' (AnError (CommonPtr r')) skip2 = Inr (r', s'))"
  by (simp add: Wrap_annotated)

theorem Wrap_of_annotated_is_identity_witness:
  "Wrap once main_stack (AnError (CommonPtr (Some 2))) 0 = Inr (Some 2, once)
   \<and> Wrap initial main_stack (AnError boom) 0 = Inr (Some 2, once)
   \<and> Wrap once [PC 9] (AnError (CommonPtr (Some 2))) 3 = Inr (Some 2, once)"
proof -
  have first: "Wrap initial main_stack (AnError boom) 0 = Inr (Some 2, once)"
    by (simp add: Wrap_foreign boom_def initial_def init_state_def once_def main_stack_def Callers_Wrap_0
          eval_nat_numeral)
  from first
    Wrap_of_annotated_is_identity[of once main_stack "Some 2" 0 "[PC 9]" 3 "AnError boom"
      "Some 2" once]
    Wrap_of_annotated_is_identity[of initial main_stack "Some 2" 0 "[PC 9]" 3 "AnError boom"
      "Some 2" once]
  show ?thesis by simp
qed

text \<open>
  C4, as the code has it. \<open>Unwrap\<close> takes off one annotation: of a \<open>*CommonError\<close> it returns
  the field \<open>Err\<close>, an error of another type it returns as it is, and the nil interface it
  turns into a new error with the text of \<open>%v\<close>. So \<open>Unwrap(New(e))\<close> is \<open>e\<close> for every
  error \<open>e\<close>, annotated or not.
\<close>

theorem Unwrap_takes_off_one_annotation:
  "(deref s p = Inr c \<longrightarrow> Unwrap s (CommonPtr p) = Inr (Err c, s))
   \<and> Unwrap s (Foreign t i m) = Inr (Foreign t i m, s)
   \<and> Unwrap s NilErr =
       Inr (Foreign errorString (next_addr s) (Sprintf ''%v'' [None]),
            s\<lparr>next_addr := Suc (next_addr s)\<rparr>)
   \<and> (make_accepts s (MaxStackDepth s) \<and> e \<noteq> NilErr \<longrightarrow>
        (\<exists>a s1. New s cs (AnError e) = Inr (Some a, s1)
           \<and> Unwrap s1 (CommonPtr (Some a)) = Inr (e, s1)))"
  by (simp add: Unwrap_def fmt_Errorf_def alloc_def New_error deref_Some del: Sprintf.simps)

theorem Unwrap_takes_off_one_annotation_witness:
  "Unwrap once (CommonPtr (Some 2)) = Inr (boom, once)
   \<and> (\<exists>a s1. New once main_stack (AnError (CommonPtr (Some 2))) = Inr (Some a, s1)
         \<and> Unwrap s1 (CommonPtr (Some a)) = Inr (CommonPtr (Some 2), s1))"
  using Unwrap_takes_off_one_annotation[of once "Some 2"
      "\<lparr>Err = boom, stack = Some (Slice 1 main_stack), frames = None, prefix = ''''\<rparr>"
      "errorString" 0 "''boom''" "CommonPtr (Some 2)" main_stack]
  by (simp add: once_def initial_def init_state_def deref_Some)

text \<open>
  C4 as the spec words it fails: for an error annotated twice, \<open>Unwrap\<close> returns the inner
  annotated error, not the innermost underlying error.
\<close>

theorem Unwrap_not_innermost:
  "New initial main_stack (AnError boom) = Inr (Some 2, once)
   \<and> New once main_stack (AnError (CommonPtr (Some 2))) = Inr (Some 4, twice)
   \<and> Unwrap twice (CommonPtr (Some 4)) = Inr (CommonPtr (Some 2), twice)
   \<and> fully_unwrapped twice (CommonPtr (Some 4)) = Some (Inr boom)
   \<and> CommonPtr (Some 2) \<noteq> boom"
proof -
  have "New initial main_stack (AnError boom) = Inr (Some 2, once)"
    by (simp add: New_error boom_def initial_def init_state_def once_def main_stack_def eval_nat_numeral)
  moreover have "New once main_stack (AnError (CommonPtr (Some 2))) = Inr (Some 4, twice)"
    by (simp add: New_error initial_def init_state_def once_def twice_def main_stack_def eval_nat_numeral)
  moreover have "Unwrap twice (CommonPtr (Some 4)) = Inr (CommonPtr (Some 2), twice)"
    by (simp add: Unwrap_def deref_Some twice_def)
  moreover have "fully_unwrapped twice (CommonPtr (Some 4)) = Some (Inr boom)"
    by (simp add: fully_unwrapped.simps deref_Some twice_def once_def boom_def)
  ultimately show ?thesis by (simp add: boom_def)
qed

text \<open>
  C8. \<open>Errorf\<close> formats the message, makes an error of it and calls \<open>Wrap\<close> on that error
  with skip 1. The error it returns holds the formatted message, has no prefix, and its stack
  starts at the caller of \<open>Errorf\<close>. \<open>Errorf("failed at step %d", 3).Error()\<close> is
  \<open>failed at step 3\<close>. \<open>Errorf\<close> returns when \<open>make\<close> accepts \<open>MaxStackDepth\<close> as a length.
\<close>

theorem Errorf_is_Wrap_of_formatted:
  assumes "make_accepts s (MaxStackDepth s)"
  shows
    "Errorf s cs format ops =
       (let (e, s1) = fmt_Errorf s format ops in Wrap s1 (PC_Errorf # cs) (AnError e) 1)
     \<and> (\<exists>a s1 c. Errorf s cs format ops = Inr (Some a, s1) \<and> heap s1 a = Some c
          \<and> Err c = Foreign errorString (next_addr s) (Sprintf format ops)
          \<and> elems (stack c) = take (nat (MaxStackDepth s)) cs
          \<and> frames c = None \<and> prefix c = []
          \<and> Error s1 (Some a) = Some (Inr (Sprintf format ops)))
     \<and> Sprintf ''failed at step %d'' [Some (GoInt 3)] = ''failed at step 3''
     \<and> (\<exists>a s1. Errorf s cs ''failed at step %d'' [Some (GoInt 3)] = Inr (Some a, s1)
          \<and> Error s1 (Some a) = Some (Inr ''failed at step 3''))"
proof -
  have result: "\<exists>a s1 c. Errorf s cs format ops = Inr (Some a, s1) \<and> heap s1 a = Some c
          \<and> Err c = Foreign errorString (next_addr s) (Sprintf format ops)
          \<and> elems (stack c) = take (nat (MaxStackDepth s)) cs
          \<and> frames c = None \<and> prefix c = []
          \<and> Error s1 (Some a) = Some (Inr (Sprintf format ops))" for format ops
    using assms
    by (simp add: Errorf_def fmt_Errorf_def alloc_def Wrap_foreign Callers_Wrap_1
          Error_unfold deref_Some iface_Error_def del: Sprintf.simps)
  have formatted: "Sprintf ''failed at step %d'' [Some (GoInt 3)] = ''failed at step 3''"
    by (simp add: show_int_def digit_def)
  from result[of "''failed at step %d''" "[Some (GoInt 3)]"]
  have "\<exists>a s1. Errorf s cs ''failed at step %d'' [Some (GoInt 3)] = Inr (Some a, s1)
          \<and> Error s1 (Some a) = Some (Inr ''failed at step 3'')"
    unfolding formatted by blast
  with result[of format ops] formatted show ?thesis
    by (simp add: Errorf_def del: Sprintf.simps)
qed

theorem Errorf_is_Wrap_of_formatted_witness:
  "\<exists>a s1 c. Errorf initial main_stack ''failed at step %d'' [Some (GoInt 3)] = Inr (Some a, s1)
      \<and> heap s1 a = Some c \<and> elems (stack c) = main_stack
      \<and> Error s1 (Some a) = Some (Inr ''failed at step 3'')"
proof -
  have depth: "make_accepts initial (MaxStackDepth initial)"
    by (simp add: initial_def init_state_def)
  have whole: "take (nat (MaxStackDepth initial)) main_stack = main_stack"
    by (simp add: initial_def init_state_def main_stack_def)
  note all = Errorf_is_Wrap_of_formatted[OF depth, where cs = main_stack
      and format = "''failed at step %d''" and ops = "[Some (GoInt 3)]"]
  from all[THEN conjunct2, THEN conjunct1] obtain a s1 c where
    "Errorf initial main_stack ''failed at step %d'' [Some (GoInt 3)] = Inr (Some a, s1)"
    "heap s1 a = Some c"
    "elems (stack c) = take (nat (MaxStackDepth initial)) main_stack"
    "Error s1 (Some a) = Some (Inr (Sprintf ''failed at step %d'' [Some (GoInt 3)]))"
    by blast
  with whole all[THEN conjunct2, THEN conjunct2, THEN conjunct1] show ?thesis
    by (metis (no_types))
qed

lemma type_String_not_panic: "type_String t \<noteq> ''panic''"
proof (cases t)
  case (Named pkg name c)
  have "CHR ''.'' \<in> set (type_String (Named pkg name c))" by simp
  moreover have "CHR ''.'' \<notin> set ''panic''" by simp
  ultimately show ?thesis unfolding Named by metis
next
  case (PtrTo u)
  then show ?thesis by simp
qed

text \<open>
  C9. \<open>TypeName\<close> returns \<open>panic\<close> exactly when the underlying value has the type
  \<open>uncaughtPanic\<close>, and the printed type of the underlying value otherwise: for \<open>New(e)\<close> the
  type of \<open>e\<close>, for \<open>New(v)\<close> with \<open>v\<close> no error the type of the error \<open>fmt.Errorf\<close> made.
\<close>

theorem TypeName_panic_or_type:
  "(deref s p = Inr c \<and> dynamic_type (Err c) = Some t \<longrightarrow>
      TypeName s p = Inr (if t = uncaughtPanic then ''panic'' else type_String t)
      \<and> (TypeName s p = Inr ''panic'' \<longleftrightarrow> t = uncaughtPanic))
   \<and> (make_accepts s (MaxStackDepth s) \<and> dynamic_type e = Some t \<longrightarrow>
        (\<exists>a s1. New s cs (AnError e) = Inr (Some a, s1)
           \<and> TypeName s1 (Some a) = Inr (if t = uncaughtPanic then ''panic'' else type_String t)))
   \<and> (make_accepts s (MaxStackDepth s) \<longrightarrow>
        (\<exists>a s1. New s cs (NonError v) = Inr (Some a, s1)
           \<and> TypeName s1 (Some a) = Inr ''*errors.errorString''))"
proof -
  have "TypeName s p = Inr (if t = uncaughtPanic then ''panic'' else type_String t)
      \<and> (TypeName s p = Inr ''panic'' \<longleftrightarrow> t = uncaughtPanic)"
    if "deref s p = Inr c" "dynamic_type (Err c) = Some t"
    using that type_String_not_panic[of t] by (simp add: TypeName_def)
  moreover have "\<exists>a s1. New s cs (AnError e) = Inr (Some a, s1)
           \<and> TypeName s1 (Some a) = Inr (if t = uncaughtPanic then ''panic'' else type_String t)"
    if "make_accepts s (MaxStackDepth s)" "dynamic_type e = Some t"
  proof -
    from that have "e \<noteq> NilErr" by auto
    with that show ?thesis by (simp add: New_error TypeName_def deref_Some)
  qed
  moreover have "\<exists>a s1. New s cs (NonError v) = Inr (Some a, s1)
           \<and> TypeName s1 (Some a) = Inr ''*errors.errorString''"
    if "make_accepts s (MaxStackDepth s)"
    using that
    by (simp add: New_non_error TypeName_def deref_Some errorString_def uncaughtPanic_def)
  ultimately show ?thesis by blast
qed

theorem TypeName_panic_or_type_witness:
  "TypeName once (Some 2) = Inr ''*errors.errorString''
   \<and> TypeName twice (Some 4) = Inr ''*errors.CommonError''
   \<and> (\<exists>a s1. New once main_stack (AnError (Foreign uncaughtPanic 0 ''index out of range''))
                = Inr (Some a, s1) \<and> TypeName s1 (Some a) = Inr ''panic'')
   \<and> (\<exists>a s1. New once main_stack (NonError (GoInt 3)) = Inr (Some a, s1)
         \<and> TypeName s1 (Some a) = Inr ''*errors.errorString'')"
proof -
  have depth: "make_accepts once (MaxStackDepth once)"
    by (simp add: once_def initial_def init_state_def)
  have "TypeName once (Some 2) = Inr ''*errors.errorString''"
    using TypeName_panic_or_type[of once "Some 2"
      "\<lparr>Err = boom, stack = Some (Slice 1 main_stack), frames = None, prefix = ''''\<rparr>"
      errorString]
    by (simp add: once_def boom_def deref_Some errorString_def uncaughtPanic_def)
  moreover have "TypeName twice (Some 4) = Inr ''*errors.CommonError''"
    using TypeName_panic_or_type[of twice "Some 4"
      "\<lparr>Err = CommonPtr (Some 2), stack = Some (Slice 3 main_stack), frames = None,
        prefix = ''''\<rparr>"
      "PtrTo (Named ''errors'' ''CommonError'' True)"]
    by (simp add: twice_def deref_Some uncaughtPanic_def)
  moreover have "\<exists>a s1. New once main_stack
        (AnError (Foreign uncaughtPanic 0 ''index out of range'')) = Inr (Some a, s1)
      \<and> TypeName s1 (Some a) = Inr ''panic''"
    using depth TypeName_panic_or_type[where s = once and t = uncaughtPanic
        and e = "Foreign uncaughtPanic 0 ''index out of range''" and cs = main_stack]
    by simp
  moreover have "\<exists>a s1. New once main_stack (NonError (GoInt 3)) = Inr (Some a, s1)
      \<and> TypeName s1 (Some a) = Inr ''*errors.errorString''"
    using depth TypeName_panic_or_type[where s = once and cs = main_stack and v = "GoInt 3"]
    by simp
  ultimately show ?thesis by blast
qed

section \<open>What a fresh annotated error holds\<close>

lemma New_fresh:
  assumes "make_accepts s (MaxStackDepth s)"
  shows "\<exists>a s1 c. New s cs e = Inr (Some a, s1) \<and> heap s1 a = Some c \<and> frames c = None
      \<and> prefix c = [] \<and> elems (stack c) = take (nat (MaxStackDepth s)) cs
      \<and> MaxStackDepth s1 = MaxStackDepth s \<and> symtab s1 = symtab s"
proof (cases e)
  case (AnError x)
  show ?thesis
  proof (cases "x = NilErr")
    case True
    with AnError assms show ?thesis by (simp add: New_nil)
  next
    case False
    with AnError assms show ?thesis by (simp add: New_error)
  qed
next
  case (NonError b)
  with assms show ?thesis by (simp add: New_non_error)
qed

lemma Wrap_fresh:
  assumes "make_accepts s (MaxStackDepth s)" "\<forall>p. e \<noteq> AnError (CommonPtr p)"
  shows "\<exists>a s1 c. Wrap s cs e k = Inr (Some a, s1) \<and> heap s1 a = Some c \<and> frames c = None
      \<and> prefix c = [] \<and> (\<exists>t i m. Err c = Foreign t i m)
      \<and> elems (stack c) =
          runtime_Callers (int_wrap (2 + k)) (nat (MaxStackDepth s)) (PC_Callers # PC_Wrap # cs)
      \<and> MaxStackDepth s1 = MaxStackDepth s \<and> symtab s1 = symtab s"
proof (cases e)
  case (AnError x)
  with assms show ?thesis
    by (cases x) (simp_all add: Wrap_nil Wrap_foreign)
next
  case (NonError b)
  with assms show ?thesis by (simp add: Wrap_non_error)
qed

lemma StackFrames_again_cached:
  "StackFrames s p = Inr (fs, s) \<Longrightarrow> StackFrames_again n s p = Inr (fs, s)"
  by (induction n) simp_all

text \<open>
  C7. \<open>StackFrames\<close> returns as many frames as the error holds captured addresses: at most
  \<open>MaxStackDepth\<close> for an error that \<open>New\<close> or \<open>Wrap\<close> made, and \<open>MaxStackDepth\<close> starts as
  50. The first call resolves the addresses and stores the slice in the error; a call after
  it returns that very slice (same backing array, same elements) and changes nothing, so any
  number of calls gives the same. The captured addresses, the underlying error and the prefix
  stay as they were.
\<close>

theorem StackFrames_resolved_once:
  "(heap s a = Some c \<and> (frames c \<noteq> None \<longrightarrow> len (frames c) = len (stack c)) \<longrightarrow>
      (\<exists>fs s1 c1. StackFrames s (Some a) = Inr (fs, s1) \<and> fs \<noteq> None
          \<and> len fs = len (stack c)
          \<and> (frames c = None \<longrightarrow> elems fs = map (NewStackFrame s) (elems (stack c)))
          \<and> heap s1 a = Some c1 \<and> frames c1 = fs \<and> stack c1 = stack c \<and> Err c1 = Err c
          \<and> prefix c1 = prefix c
          \<and> StackFrames s1 (Some a) = Inr (fs, s1)
          \<and> (\<forall>n. StackFrames_again n s (Some a) = Inr (fs, s1))))
   \<and> (make_accepts s (MaxStackDepth s) \<longrightarrow>
        (\<exists>a1 s1 c1. New s cs e = Inr (Some a1, s1) \<and> heap s1 a1 = Some c1 \<and> frames c1 = None
           \<and> elems (stack c1) = take (nat (MaxStackDepth s)) cs
           \<and> len (stack c1) \<le> nat (MaxStackDepth s)))
   \<and> (make_accepts s (MaxStackDepth s) \<and> (\<forall>p. e \<noteq> AnError (CommonPtr p)) \<longrightarrow>
        (\<exists>a1 s1 c1. Wrap s cs e k = Inr (Some a1, s1) \<and> heap s1 a1 = Some c1
           \<and> frames c1 = None
           \<and> elems (stack c1) =
               runtime_Callers (int_wrap (2 + k)) (nat (MaxStackDepth s)) (PC_Callers # PC_Wrap # cs)
           \<and> len (stack c1) \<le> nat (MaxStackDepth s)))
   \<and> MaxStackDepth (init_state limit symbols) = 50"
proof -
  have frames: "\<exists>fs s1 c1. StackFrames s (Some a) = Inr (fs, s1) \<and> fs \<noteq> None
          \<and> len fs = len (stack c)
          \<and> (frames c = None \<longrightarrow> elems fs = map (NewStackFrame s) (elems (stack c)))
          \<and> heap s1 a = Some c1 \<and> frames c1 = fs \<and> stack c1 = stack c \<and> Err c1 = Err c
          \<and> prefix c1 = prefix c
          \<and> StackFrames s1 (Some a) = Inr (fs, s1)
          \<and> (\<forall>n. StackFrames_again n s (Some a) = Inr (fs, s1))"
    if obj: "heap s a = Some c" and inv: "frames c \<noteq> None \<longrightarrow> len (frames c) = len (stack c)"
  proof (cases "frames c")
    case None
    let ?fs = "Slice (next_addr s) (map (NewStackFrame s) (elems (stack c)))"
    let ?c1 = "c\<lparr>frames := Some ?fs\<rparr>"
    let ?s1 = "s\<lparr>next_addr := Suc (next_addr s), heap := (heap s)(a \<mapsto> ?c1)\<rparr>"
    have first: "StackFrames s (Some a) = Inr (Some ?fs, ?s1)"
      by (rule StackFrames_first[OF obj None])
    have stored: "heap ?s1 a = Some ?c1" by simp
    have again: "StackFrames ?s1 (Some a) = Inr (Some ?fs, ?s1)"
      by (rule StackFrames_cached[OF stored]) simp
    have "StackFrames_again n s (Some a) = Inr (Some ?fs, ?s1)" for n
      by (cases n) (simp_all only: StackFrames_again.simps first sum.case prod.case
          StackFrames_again_cached[OF again])
    with first stored again None show ?thesis
      by (intro exI[of _ "Some ?fs"] exI[of _ ?s1] exI[of _ ?c1]) (simp add: len_def)
  next
    case (Some fs)
    from StackFrames_cached[OF obj Some]
    have "StackFrames_again n s (Some a) = Inr (Some fs, s)" for n
      by (rule StackFrames_again_cached)
    with obj inv Some StackFrames_cached[OF obj Some] show ?thesis by simp
  qed
  from New_fresh[of s cs e]
  have new: "\<exists>a1 s1 c1. New s cs e = Inr (Some a1, s1) \<and> heap s1 a1 = Some c1
           \<and> frames c1 = None \<and> elems (stack c1) = take (nat (MaxStackDepth s)) cs
           \<and> len (stack c1) \<le> nat (MaxStackDepth s)"
    if "make_accepts s (MaxStackDepth s)"
    using that by (auto simp: len_def)
  from Wrap_fresh[of s e cs k]
  have wrap: "\<exists>a1 s1 c1. Wrap s cs e k = Inr (Some a1, s1) \<and> heap s1 a1 = Some c1
           \<and> frames c1 = None
           \<and> elems (stack c1) =
               runtime_Callers (int_wrap (2 + k)) (nat (MaxStackDepth s)) (PC_Callers # PC_Wrap # cs)
           \<and> len (stack c1) \<le> nat (MaxStackDepth s)"
    if "make_accepts s (MaxStackDepth s)" "\<forall>p. e \<noteq> AnError (CommonPtr p)"
    using that by (auto simp: len_def length_Callers)
  have "MaxStackDepth (init_state limit symbols) = 50"
    by (simp add: init_state_def)
  with frames new wrap show ?thesis by blast
qed

theorem StackFrames_resolved_once_witness:
  "\<exists>fs s1. StackFrames once (Some 2) = Inr (fs, s1) \<and> len fs = 2
      \<and> elems fs = map (NewStackFrame once) [PC 7, PC 8]
      \<and> StackFrames s1 (Some 2) = Inr (fs, s1)
      \<and> StackFrames_again 5 once (Some 2) = Inr (fs, s1)"
proof -
  let ?c = "\<lparr>Err = boom, stack = Some (Slice 1 main_stack), frames = None, prefix = ''''\<rparr>"
  have obj: "heap once 2 = Some ?c" by (simp add: once_def)
  from StackFrames_resolved_once[where s = once and a = 2 and c = ?c, THEN conjunct1] obj
  obtain fs s1 where
    "StackFrames once (Some 2) = Inr (fs, s1)" "len fs = len (stack ?c)"
    "elems fs = map (NewStackFrame once) (elems (stack ?c))"
    "StackFrames s1 (Some 2) = Inr (fs, s1)"
    "\<forall>n. StackFrames_again n once (Some 2) = Inr (fs, s1)"
    by auto
  then show ?thesis by (auto simp: len_def main_stack_def)
qed

section \<open>The message of an error, as a relation\<close>

lemma renders_Error: "renders s e n u \<Longrightarrow> iface_Error s e = Some (Inr u)"
proof (induction rule: renders.induct)
  case (renders_foreign t i m)
  show ?case by (simp add: iface_Error_def)
next
  case (renders_common a c n u)
  then show ?case
    by (simp add: iface_Error_def Error_unfold[of s "Some a"] deref_Some)
qed

lemma Error_renders_aux:
  assumes "Error s p = Some r"
  shows "\<forall>u. r = Inr u \<longrightarrow> (\<exists>n. renders s (CommonPtr p) n u)"
proof (rule Error.raw_induct[OF _ assms], goal_cases)
  case (1 approx s p r)
  note IH = 1(1) and eq = 1(2)
  show ?case
  proof (intro allI impI)
    fix u
    assume ru: "r = Inr u"
    from eq ru obtain c where c: "deref s p = Inr c"
      by (auto split: sum.splits)
    then obtain a where a: "p = Some a" "heap s a = Some c"
      by (auto simp: deref_Inr)
    from eq ru c obtain r0 where
      r0: "(case Err c of
              NilErr \<Rightarrow> Some (Inl NilDereference)
            | CommonPtr q \<Rightarrow> approx s q
            | Foreign t i m \<Rightarrow> Some (Inr m)) = Some r0"
      and out: "(case r0 of
                   Inl x \<Rightarrow> Some (Inl x)
                 | Inr msg \<Rightarrow>
                     Some (Inr (if prefix c \<noteq> []
                                then Sprintf ''%s: %s''
                                       [Some (GoString (prefix c)), Some (GoString msg)]
                                else msg))) = Some (Inr u)"
      by (auto simp: bind_eq_Some_conv simp del: Sprintf.simps)
    from out obtain msg where msg: "r0 = Inr msg"
      and u: "u = (if prefix c \<noteq> [] then prefix c @ '': '' @ msg else msg)"
      by (cases r0) (auto simp: Sprintf_join simp del: Sprintf.simps split: if_splits)
    note inner = r0[unfolded msg]
    have "\<exists>n. renders s (Err c) n msg"
    proof (cases "Err c")
      case NilErr
      with inner show ?thesis by simp
    next
      case (CommonPtr q)
      with inner IH[of s q "Inr msg"] show ?thesis by simp
    next
      case (Foreign t i m)
      with inner show ?thesis by (auto intro: renders.intros)
    qed
    then obtain n where "renders s (Err c) n msg" ..
    from renders_common[OF a(2) this] a(1) u show "\<exists>n. renders s (CommonPtr p) n u"
      by auto
  qed
qed

lemma Error_renders:
  assumes "iface_Error s e = Some (Inr u)"
  shows "\<exists>n. renders s e n u"
proof (cases e)
  case NilErr
  with assms show ?thesis by (simp add: iface_Error_def)
next
  case (CommonPtr q)
  with assms Error_renders_aux[of s q "Inr u"] show ?thesis by (simp add: iface_Error_def)
next
  case (Foreign t i m)
  with assms show ?thesis by (auto simp: iface_Error_def intro: renders.intros)
qed

lemma renders_depth: "renders s e n u \<Longrightarrow> renders s e n' u' \<Longrightarrow> n = n'"
proof (induction arbitrary: n' u' rule: renders.induct)
  case (renders_foreign t i m)
  then show ?case by (auto elim: renders.cases)
next
  case (renders_common a c n u)
  from renders_common.prems renders_common.hyps(1) obtain m w where
    "n' = Suc m" "renders s (Err c) m w"
    by (auto elim: renders.cases)
  with renders_common.IH show ?case by auto
qed

lemma renders_frame:
  assumes "renders s e n u" "renders s (CommonPtr (Some a)) k v" "n < k"
    and "\<forall>b. b \<noteq> a \<longrightarrow> heap s' b = heap s b"
  shows "renders s' e n u"
  using assms(1,3)
proof (induction rule: renders.induct)
  case (renders_foreign t i m)
  show ?case by (rule renders.intros)
next
  case (renders_common b c n u)
  have "b \<noteq> a"
  proof
    assume "b = a"
    with renders.renders_common[OF renders_common.hyps(1,2)] assms(2)
    have "Suc n = k" by (auto dest: renders_depth)
    with renders_common.prems show False by simp
  qed
  with assms(4) renders_common.hyps(1) have "heap s' b = Some c" by simp
  moreover from renders_common.IH renders_common.prems have "renders s' (Err c) n u" by simp
  ultimately show ?case by (rule renders.intros)
qed

lemma Error_after_prefix_update:
  assumes "heap s a = Some c" "iface_Error s (Err c) = Some (Inr u)"
  shows "Error (s\<lparr>heap := (heap s)(a \<mapsto> c\<lparr>prefix := p\<rparr>)\<rparr>) (Some a) =
         Some (Inr (if p \<noteq> [] then p @ '': '' @ u else u))"
proof -
  let ?s' = "s\<lparr>heap := (heap s)(a \<mapsto> c\<lparr>prefix := p\<rparr>)\<rparr>"
  from Error_renders[OF assms(2)] obtain n where n: "renders s (Err c) n u" ..
  from renders_common[OF assms(1) n] obtain v where "renders s (CommonPtr (Some a)) (Suc n) v"
    by blast
  from renders_frame[OF n this, of ?s'] have "renders ?s' (Err c) n u" by simp
  moreover have "heap ?s' a = Some (c\<lparr>prefix := p\<rparr>)" by simp
  ultimately have "renders ?s' (CommonPtr (Some a)) (Suc n)
      (if prefix (c\<lparr>prefix := p\<rparr>) \<noteq> [] then prefix (c\<lparr>prefix := p\<rparr>) @ '': '' @ u else u)"
    using renders_common[of ?s' a "c\<lparr>prefix := p\<rparr>" n u] by simp
  from renders_Error[OF this] show ?thesis by (simp add: iface_Error_def)
qed

lemma Error_of_object:
  assumes "heap s a = Some c" "iface_Error s (Err c) = Some (Inr u)"
  shows "Error s (Some a) = Some (Inr (if prefix c \<noteq> [] then prefix c @ '': '' @ u else u))"
  using assms by (simp add: Error_unfold deref_Some)

lemma WrapPrefix_annotated:
  assumes "heap s a = Some c"
  shows "WrapPrefix s cs (AnError (CommonPtr (Some a))) pre k =
    Inr (Some a,
         s\<lparr>heap := (heap s)(a \<mapsto>
              c\<lparr>prefix := (if prefix c \<noteq> [] then pre @ '': '' @ prefix c else pre)\<rparr>)\<rparr>)"
  using assms by (simp add: WrapPrefix_def Wrap_annotated Sprintf_join del: Sprintf.simps)

lemma WrapPrefix_fresh:
  assumes "make_accepts s (MaxStackDepth s)" "\<forall>p. e \<noteq> AnError (CommonPtr p)"
  shows "\<exists>a s0 c0 t i m. Wrap s (PC_WrapPrefix # cs) e k = Inr (Some a, s0)
      \<and> heap s0 a = Some c0 \<and> prefix c0 = [] \<and> Err c0 = Foreign t i m
      \<and> WrapPrefix s cs e pre k =
          Inr (Some a, s0\<lparr>heap := (heap s0)(a \<mapsto> c0\<lparr>prefix := pre\<rparr>)\<rparr>)"
proof -
  from Wrap_fresh[OF assms, of "PC_WrapPrefix # cs" k] obtain a s0 c0 t i m where
    "Wrap s (PC_WrapPrefix # cs) e k = Inr (Some a, s0)" "heap s0 a = Some c0"
    "prefix c0 = []" "Err c0 = Foreign t i m"
    by blast
  then show ?thesis by (simp add: WrapPrefix_def)
qed

text \<open>
  C6. \<open>WrapPrefix\<close> sets the prefix of a fresh error to the new prefix, and on an error that is
  annotated already it puts the new prefix and \<open>": "\<close> before the prefix the error has, if
  it has one. \<open>Error\<close> of an error with a prefix is the prefix, \<open>": "\<close> and the underlying
  message. So after \<open>WrapPrefix(e, "A", 0)\<close> and \<open>WrapPrefix(result, "B", 0)\<close> the text of
  \<open>Error()\<close> starts with \<open>B: A: \<close>, whether \<open>e\<close> was annotated or not.
\<close>

theorem WrapPrefix_composes_prefixes:
  "(make_accepts s (MaxStackDepth s) \<and> (\<forall>p. e \<noteq> AnError (CommonPtr p)) \<longrightarrow>
      (\<exists>a1 s1 c1. WrapPrefix s cs e pre k = Inr (Some a1, s1) \<and> heap s1 a1 = Some c1
         \<and> prefix c1 = pre))
   \<and> (heap s a = Some c \<longrightarrow>
      (\<exists>s1 c1. WrapPrefix s cs (AnError (CommonPtr (Some a))) pre k = Inr (Some a, s1)
         \<and> heap s1 a = Some c1
         \<and> prefix c1 = (if prefix c \<noteq> [] then pre @ '': '' @ prefix c else pre)))
   \<and> (heap s a = Some c \<and> prefix c \<noteq> [] \<and> iface_Error s (Err c) = Some (Inr u) \<longrightarrow>
        Error s (Some a) = Some (Inr (prefix c @ '': '' @ u)))
   \<and> (make_accepts s (MaxStackDepth s) \<and> (\<forall>p. e \<noteq> AnError (CommonPtr p)) \<longrightarrow>
      (\<exists>a1 s1 s2 msg. WrapPrefix s cs e ''A'' 0 = Inr (Some a1, s1)
         \<and> WrapPrefix s1 cs' (AnError (CommonPtr (Some a1))) ''B'' 0 = Inr (Some a1, s2)
         \<and> Error s2 (Some a1) = Some (Inr (''B: A: '' @ msg))))
   \<and> (heap s a = Some c \<and> iface_Error s (Err c) = Some (Inr u) \<longrightarrow>
      (\<exists>s1 s2. WrapPrefix s cs (AnError (CommonPtr (Some a))) ''A'' 0 = Inr (Some a, s1)
         \<and> WrapPrefix s1 cs' (AnError (CommonPtr (Some a))) ''B'' 0 = Inr (Some a, s2)
         \<and> Error s2 (Some a) =
             Some (Inr (''B: A: '' @ (if prefix c \<noteq> [] then prefix c @ '': '' @ u else u)))))"
proof -
  have fresh: "\<exists>a1 s1 c1. WrapPrefix s cs e pre k = Inr (Some a1, s1) \<and> heap s1 a1 = Some c1
         \<and> prefix c1 = pre"
    if "make_accepts s (MaxStackDepth s)" "\<forall>p. e \<noteq> AnError (CommonPtr p)"
    using WrapPrefix_fresh[OF that, of cs k pre] by auto
  have annotated: "\<exists>s1 c1. WrapPrefix s cs (AnError (CommonPtr (Some a))) pre k = Inr (Some a, s1)
         \<and> heap s1 a = Some c1
         \<and> prefix c1 = (if prefix c \<noteq> [] then pre @ '': '' @ prefix c else pre)"
    if "heap s a = Some c"
    by (simp add: WrapPrefix_annotated[OF that])
  have rendered: "Error s (Some a) = Some (Inr (prefix c @ '': '' @ u))"
    if "heap s a = Some c" "prefix c \<noteq> []" "iface_Error s (Err c) = Some (Inr u)"
    using Error_of_object[OF that(1,3)] that(2) by simp
  have fresh_twice: "\<exists>a1 s1 s2 msg. WrapPrefix s cs e ''A'' 0 = Inr (Some a1, s1)
         \<and> WrapPrefix s1 cs' (AnError (CommonPtr (Some a1))) ''B'' 0 = Inr (Some a1, s2)
         \<and> Error s2 (Some a1) = Some (Inr (''B: A: '' @ msg))"
    if "make_accepts s (MaxStackDepth s)" "\<forall>p. e \<noteq> AnError (CommonPtr p)"
  proof -
    from WrapPrefix_fresh[OF that, of cs 0 "''A''"] obtain a1 s0 c0 t i m where
      c0: "heap s0 a1 = Some c0" "prefix c0 = []" "Err c0 = Foreign t i m"
      and first: "WrapPrefix s cs e ''A'' 0 =
          Inr (Some a1, s0\<lparr>heap := (heap s0)(a1 \<mapsto> c0\<lparr>prefix := ''A''\<rparr>)\<rparr>)"
      by blast
    let ?c1 = "c0\<lparr>prefix := ''A''\<rparr>"
    let ?s1 = "s0\<lparr>heap := (heap s0)(a1 \<mapsto> ?c1)\<rparr>"
    have obj1: "heap ?s1 a1 = Some ?c1" by simp
    let ?s2 = "?s1\<lparr>heap := (heap ?s1)(a1 \<mapsto>
        ?c1\<lparr>prefix := (if prefix ?c1 \<noteq> [] then ''B'' @ '': '' @ prefix ?c1 else ''B'')\<rparr>)\<rparr>"
    have second: "WrapPrefix ?s1 cs' (AnError (CommonPtr (Some a1))) ''B'' 0 = Inr (Some a1, ?s2)"
      by (rule WrapPrefix_annotated[OF obj1])
    have "Error ?s2 (Some a1) = Some (Inr (''B: A: '' @ m))"
      using c0 by (simp add: Error_unfold deref_Some iface_Error_def)
    with first second show ?thesis by blast
  qed
  have annotated_twice:
    "\<exists>s1 s2. WrapPrefix s cs (AnError (CommonPtr (Some a))) ''A'' 0 = Inr (Some a, s1)
         \<and> WrapPrefix s1 cs' (AnError (CommonPtr (Some a))) ''B'' 0 = Inr (Some a, s2)
         \<and> Error s2 (Some a) =
             Some (Inr (''B: A: '' @ (if prefix c \<noteq> [] then prefix c @ '': '' @ u else u)))"
    if obj: "heap s a = Some c" and under: "iface_Error s (Err c) = Some (Inr u)"
  proof -
    let ?pA = "if prefix c \<noteq> [] then ''A'' @ '': '' @ prefix c else ''A''"
    let ?c1 = "c\<lparr>prefix := ?pA\<rparr>"
    let ?s1 = "s\<lparr>heap := (heap s)(a \<mapsto> ?c1)\<rparr>"
    have first: "WrapPrefix s cs (AnError (CommonPtr (Some a))) ''A'' 0 = Inr (Some a, ?s1)"
      by (rule WrapPrefix_annotated[OF obj])
    have obj1: "heap ?s1 a = Some ?c1" by simp
    let ?s2 = "?s1\<lparr>heap := (heap ?s1)(a \<mapsto>
        ?c1\<lparr>prefix := (if prefix ?c1 \<noteq> [] then ''B'' @ '': '' @ prefix ?c1 else ''B'')\<rparr>)\<rparr>"
    have second: "WrapPrefix ?s1 cs' (AnError (CommonPtr (Some a))) ''B'' 0 = Inr (Some a, ?s2)"
      by (rule WrapPrefix_annotated[OF obj1])
    have same: "?s2 = s\<lparr>heap := (heap s)(a \<mapsto> c\<lparr>prefix := ''B: '' @ ?pA\<rparr>)\<rparr>"
      by simp
    have "Error ?s2 (Some a) =
        Some (Inr (''B: A: '' @ (if prefix c \<noteq> [] then prefix c @ '': '' @ u else u)))"
      unfolding same Error_after_prefix_update[OF obj under] by simp
    with first second show ?thesis by blast
  qed
  from fresh annotated rendered fresh_twice annotated_twice show ?thesis by blast
qed

theorem WrapPrefix_composes_prefixes_witness:
  "(\<exists>a1 s1 s2 msg. WrapPrefix initial main_stack (AnError boom) ''A'' 0 = Inr (Some a1, s1)
       \<and> WrapPrefix s1 main_stack (AnError (CommonPtr (Some a1))) ''B'' 0 = Inr (Some a1, s2)
       \<and> Error s2 (Some a1) = Some (Inr (''B: A: '' @ msg)))
   \<and> (\<exists>s1 s2. WrapPrefix once main_stack (AnError (CommonPtr (Some 2))) ''A'' 0
                 = Inr (Some 2, s1)
       \<and> WrapPrefix s1 main_stack (AnError (CommonPtr (Some 2))) ''B'' 0 = Inr (Some 2, s2)
       \<and> Error s2 (Some 2) = Some (Inr ''B: A: boom''))"
proof -
  let ?c = "\<lparr>Err = boom, stack = Some (Slice 1 main_stack), frames = None, prefix = ''''\<rparr>"
  have depth: "make_accepts initial (MaxStackDepth initial)" by (simp add: initial_def init_state_def)
  have plain: "\<forall>p. AnError boom \<noteq> AnError (CommonPtr p)" by (simp add: boom_def)
  have obj: "heap once 2 = Some ?c" by (simp add: once_def)
  have under: "iface_Error once (Err ?c) = Some (Inr ''boom'')"
    by (simp add: iface_Error_def boom_def)
  note fresh = WrapPrefix_composes_prefixes[where s = initial and e = "AnError boom"
      and cs = main_stack and cs' = main_stack,
      THEN conjunct2, THEN conjunct2, THEN conjunct2, THEN conjunct1]
  note annotated = WrapPrefix_composes_prefixes[where s = once and a = 2 and c = ?c
      and u = "''boom''" and cs = main_stack and cs' = main_stack,
      THEN conjunct2, THEN conjunct2, THEN conjunct2, THEN conjunct2]
  from fresh depth plain annotated obj under show ?thesis by simp
qed

text \<open>
  C10. \<open>WrapPrefix\<close> of an error that is annotated already returns the same pointer and
  writes the composed prefix into that object: the underlying error, the captured stack and
  the resolved frames stay, no other object and no other part of the state changes, and
  \<open>Error()\<close> of the object now renders with the new prefix.
\<close>

theorem WrapPrefix_of_annotated_updates_in_place:
  "heap s a = Some c \<longrightarrow>
     (\<exists>s1 c1. WrapPrefix s cs (AnError (CommonPtr (Some a))) pre k = Inr (Some a, s1)
        \<and> s1 = s\<lparr>heap := (heap s)(a \<mapsto> c1)\<rparr>
        \<and> prefix c1 = (if prefix c \<noteq> [] then pre @ '': '' @ prefix c else pre)
        \<and> Err c1 = Err c \<and> stack c1 = stack c \<and> frames c1 = frames c
        \<and> (\<forall>u. iface_Error s (Err c) = Some (Inr u) \<longrightarrow>
              Error s (Some a) =
                Some (Inr (if prefix c \<noteq> [] then prefix c @ '': '' @ u else u))
              \<and> Error s1 (Some a) =
                Some (Inr (if prefix c1 \<noteq> [] then prefix c1 @ '': '' @ u else u))))"
proof
  assume obj: "heap s a = Some c"
  let ?p = "if prefix c \<noteq> [] then pre @ '': '' @ prefix c else pre"
  let ?c1 = "c\<lparr>prefix := ?p\<rparr>"
  let ?s1 = "s\<lparr>heap := (heap s)(a \<mapsto> ?c1)\<rparr>"
  have call: "WrapPrefix s cs (AnError (CommonPtr (Some a))) pre k = Inr (Some a, ?s1)"
    by (rule WrapPrefix_annotated[OF obj])
  have "Error s (Some a) = Some (Inr (if prefix c \<noteq> [] then prefix c @ '': '' @ u else u))
      \<and> Error ?s1 (Some a) = Some (Inr (if prefix ?c1 \<noteq> [] then prefix ?c1 @ '': '' @ u else u))"
    if "iface_Error s (Err c) = Some (Inr u)" for u
    using Error_of_object[OF obj that] Error_after_prefix_update[OF obj that, of ?p] by simp
  with call show "\<exists>s1 c1. WrapPrefix s cs (AnError (CommonPtr (Some a))) pre k
        = Inr (Some a, s1)
      \<and> s1 = s\<lparr>heap := (heap s)(a \<mapsto> c1)\<rparr>
      \<and> prefix c1 = (if prefix c \<noteq> [] then pre @ '': '' @ prefix c else pre)
      \<and> Err c1 = Err c \<and> stack c1 = stack c \<and> frames c1 = frames c
      \<and> (\<forall>u. iface_Error s (Err c) = Some (Inr u) \<longrightarrow>
            Error s (Some a) = Some (Inr (if prefix c \<noteq> [] then prefix c @ '': '' @ u else u))
            \<and> Error s1 (Some a) =
              Some (Inr (if prefix c1 \<noteq> [] then prefix c1 @ '': '' @ u else u)))"
    by (intro exI[of _ ?s1] exI[of _ ?c1]) simp
qed

theorem WrapPrefix_of_annotated_updates_in_place_witness:
  "\<exists>s1 c1. WrapPrefix once main_stack (AnError (CommonPtr (Some 2))) ''reading config'' 0
        = Inr (Some 2, s1)
     \<and> heap s1 2 = Some c1 \<and> prefix c1 = ''reading config'' \<and> Err c1 = boom
     \<and> stack c1 = Some (Slice 1 main_stack) \<and> frames c1 = None
     \<and> Error once (Some 2) = Some (Inr ''boom'')
     \<and> Error s1 (Some 2) = Some (Inr ''reading config: boom'')"
proof -
  let ?c = "\<lparr>Err = boom, stack = Some (Slice 1 main_stack), frames = None, prefix = ''''\<rparr>"
  have obj: "heap once 2 = Some ?c" by (simp add: once_def)
  have under: "iface_Error once (Err ?c) = Some (Inr ''boom'')"
    by (simp add: iface_Error_def boom_def)
  from WrapPrefix_of_annotated_updates_in_place[of once 2 ?c main_stack "''reading config''" 0]
    obj
  obtain s1 c1 where
    "WrapPrefix once main_stack (AnError (CommonPtr (Some 2))) ''reading config'' 0
       = Inr (Some 2, s1)"
    "s1 = once\<lparr>heap := (heap once)(2 \<mapsto> c1)\<rparr>"
    "prefix c1 = ''reading config''" "Err c1 = boom" "stack c1 = Some (Slice 1 main_stack)"
    "frames c1 = None"
    "\<forall>u. iface_Error once (Err ?c) = Some (Inr u) \<longrightarrow>
        Error once (Some 2) = Some (Inr u)
        \<and> Error s1 (Some 2) = Some (Inr (if prefix c1 \<noteq> [] then prefix c1 @ '': '' @ u else u))"
    by auto
  with under show ?thesis by auto
qed

section \<open>Following the underlying errors\<close>

lemma unwraps_fully: "unwraps s e x \<Longrightarrow> fully_unwrapped s e = Some (Inr x)"
proof (induction rule: unwraps.induct)
  case (unwraps_end e)
  then show ?case by (simp add: fully_unwrapped.simps)
next
  case (unwraps_step a c x)
  then show ?case by (subst fully_unwrapped.simps) (simp add: deref_Some)
qed

lemma fully_unwraps_aux:
  assumes "fully_unwrapped s e = Some r"
  shows "\<forall>x. r = Inr x \<longrightarrow> unwraps s e x"
proof (rule fully_unwrapped.raw_induct[OF _ assms], goal_cases)
  case (1 approx s e r)
  note IH = 1(1) and eq = 1(2)
  show ?case
  proof (intro allI impI)
    fix x
    assume rx: "r = Inr x"
    show "unwraps s e x"
    proof (cases "as_CommonError e")
      case None
      with eq rx show ?thesis by (auto intro: unwraps.intros)
    next
      case (Some p)
      then have e: "e = CommonPtr p" by (cases e) auto
      from eq Some rx obtain c where c: "deref s p = Inr c" and inner: "approx s (Err c) = Some r"
        by (auto split: sum.splits)
      from c obtain a where a: "p = Some a" "heap s a = Some c" by (auto simp: deref_Inr)
      from IH[OF inner] rx a e show ?thesis by (auto intro: unwraps.intros)
    qed
  qed
qed

lemma fully_unwrapped_iff: "fully_unwrapped s e = Some (Inr x) \<longleftrightarrow> unwraps s e x"
  using unwraps_fully fully_unwraps_aux by blast

lemma unwraps_det: "unwraps s e x \<Longrightarrow> unwraps s e y \<Longrightarrow> x = y"
  by (simp add: fully_unwrapped_iff[symmetric])

lemma unwraps_mono:
  assumes "unwraps s e x"
    and "\<forall>a c. heap s a = Some c \<longrightarrow> (\<exists>c'. heap s' a = Some c' \<and> Err c' = Err c)"
  shows "unwraps s' e x"
  using assms(1)
proof (induction rule: unwraps.induct)
  case (unwraps_end e)
  then show ?case by (rule unwraps.intros)
next
  case (unwraps_step a c x)
  from assms(2) unwraps_step.hyps(1) obtain c' where "heap s' a = Some c'" "Err c' = Err c"
    by blast
  with unwraps_step.IH show ?case by (auto intro: unwraps.intros)
qed

lemma unwraps_renders: "unwraps s e x \<Longrightarrow> x = Foreign t i m \<Longrightarrow> \<exists>n u. renders s e n u"
proof (induction rule: unwraps.induct)
  case (unwraps_end e)
  then show ?case by (auto intro: renders.intros)
next
  case (unwraps_step a c x)
  then obtain n u where "renders s (Err c) n u" by blast
  from renders_common[OF unwraps_step.hyps(1) this] show ?case by blast
qed

lemma go_eq_common_left: "go_eq (CommonPtr p) y = Inr (CommonPtr p = y)"
  by (simp add: go_eq_def)

lemma go_eq_common_right: "go_eq x (CommonPtr p) = Inr (x = CommonPtr p)"
  by (cases x) (simp_all add: go_eq_def)

lemma go_eq_Inr: "go_eq x y = Inr r \<Longrightarrow> r = (x = y)"
  by (cases x; cases y) (auto simp: go_eq_def split: if_splits)

lemma go_eq_no_panic: "go_eq x y \<noteq> Inl UncomparableType \<Longrightarrow> go_eq x y = Inr (x = y)"
  by (cases x; cases y) (auto simp: go_eq_def split: if_splits)

lemma Is_right:
  assumes "unwraps s b y" "as_CommonError e = None" "go_eq e y = Inr r"
  shows "Is s e b = Some (Inr r)"
  using assms
proof (induction rule: unwraps.induct)
  case (unwraps_end b)
  then show ?case by (subst Is.simps) simp
next
  case (unwraps_step a c y)
  from unwraps_step.prems(1) have "e \<noteq> CommonPtr (Some a)" by auto
  with unwraps_step show ?case
    by (subst Is.simps) (simp add: go_eq_common_right deref_Some)
qed

lemma Is_unwraps:
  assumes "unwraps s a x" "unwraps s b y" "go_eq x y = Inr r"
  shows "Is s a b = Some (Inr r)"
  using assms
proof (induction rule: unwraps.induct)
  case (unwraps_end e)
  then show ?case by (simp add: Is_right)
next
  case (unwraps_step a' c x)
  show ?case
  proof (cases "b = CommonPtr (Some a')")
    case True
    with unwraps.unwraps_step[OF unwraps_step.hyps(1,2)] unwraps_step.prems(1)
    have "x = y" by (auto dest: unwraps_det)
    with unwraps_step.prems(2) have "r" by (auto dest: go_eq_Inr)
    with True show ?thesis by (subst Is.simps) (simp add: go_eq_common_left)
  next
    case False
    with unwraps_step show ?thesis
      by (subst Is.simps) (simp add: go_eq_common_left deref_Some)
  qed
qed

lemma Is_fully_unwrapped:
  assumes "fully_unwrapped s a = Some (Inr x)" "fully_unwrapped s b = Some (Inr y)"
    and "go_eq x y \<noteq> Inl UncomparableType"
  shows "Is s a b = Some (Inr (x = y))"
  using assms by (simp add: fully_unwrapped_iff Is_unwraps go_eq_no_panic)

lemma New_error_unwraps:
  assumes "allocated s" "make_accepts s (MaxStackDepth s)" "e \<noteq> NilErr" "unwraps s e x"
  shows "\<exists>a s1. New s cs (AnError e) = Inr (Some a, s1) \<and> allocated s1
      \<and> make_accepts s1 (MaxStackDepth s1)
      \<and> unwraps s1 (CommonPtr (Some a)) x
      \<and> (\<forall>e' x'. unwraps s e' x' \<longrightarrow> unwraps s1 e' x')
      \<and> a \<notin> dom (heap s)"
proof -
  let ?a = "next_addr s + 1"
  let ?c = "\<lparr>Err = e, stack = Some (Slice (next_addr s) (take (nat (MaxStackDepth s)) cs)),
             frames = None, prefix = ''''\<rparr>"
  let ?s1 = "s\<lparr>next_addr := next_addr s + 2, heap := (heap s)(?a \<mapsto> ?c)\<rparr>"
  have new: "New s cs (AnError e) = Inr (Some ?a, ?s1)"
    by (rule New_error[OF assms(2,3)])
  have fresh: "?a \<notin> dom (heap s)"
    using assms(1) by (auto simp: allocated_def)
  have keep: "\<forall>a c. heap s a = Some c \<longrightarrow> (\<exists>c'. heap ?s1 a = Some c' \<and> Err c' = Err c)"
    using fresh by auto
  have mono: "unwraps ?s1 e' x'" if "unwraps s e' x'" for e' x'
    by (rule unwraps_mono[OF that keep])
  have obj: "heap ?s1 ?a = Some ?c" by simp
  have "unwraps ?s1 (Err ?c) x" using mono[OF assms(4)] by simp
  from unwraps_step[OF obj this] have top: "unwraps ?s1 (CommonPtr (Some ?a)) x" .
  have "allocated ?s1"
    using assms(1) by (auto simp: allocated_def)
  with new top mono fresh assms(2) show ?thesis
    by (intro exI[of _ ?a] exI[of _ ?s1]) simp
qed

text \<open>
  C5, as the code has it. \<open>Is(a, b)\<close> is true exactly when \<open>a\<close> and \<open>b\<close> are the same value or
  their fully-unwrapped underlying values are: equality is \<open>==\<close> of Go, identity for
  pointers. This holds when both chains of underlying errors end and the two ends can be
  compared. \<open>Is(x, x)\<close> is true for every \<open>*CommonError\<close> \<open>x\<close>. \<open>Is(New(e1), New(e2))\<close> is
  false when the fully-unwrapped values of \<open>e1\<close> and \<open>e2\<close> differ, so for two different errors
  that are not annotated, whatever their messages.
\<close>

theorem Is_compares_fully_unwrapped:
  "(fully_unwrapped s a = Some (Inr x) \<and> fully_unwrapped s b = Some (Inr y)
      \<and> go_eq x y \<noteq> Inl UncomparableType \<longrightarrow>
        Is s a b = Some (Inr (a = b \<or> x = y)))
   \<and> Is s (CommonPtr p) (CommonPtr p) = Some (Inr True)
   \<and> (allocated s \<and> make_accepts s (MaxStackDepth s) \<and> e1 \<noteq> NilErr \<and> e2 \<noteq> NilErr
      \<and> fully_unwrapped s e1 = Some (Inr x) \<and> fully_unwrapped s e2 = Some (Inr y)
      \<and> go_eq x y = Inr False \<longrightarrow>
        (\<exists>a1 s1 a2 s2. New s cs (AnError e1) = Inr (Some a1, s1)
           \<and> New s1 cs' (AnError e2) = Inr (Some a2, s2)
           \<and> Is s2 (CommonPtr (Some a1)) (CommonPtr (Some a2)) = Some (Inr False)))
   \<and> (allocated s \<and> make_accepts s (MaxStackDepth s)
      \<and> Foreign t1 i1 m1 \<noteq> Foreign t2 i2 m2 \<and> (t1 = t2 \<longrightarrow> comparable t1) \<longrightarrow>
        (\<exists>a1 s1 a2 s2. New s cs (AnError (Foreign t1 i1 m1)) = Inr (Some a1, s1)
           \<and> New s1 cs' (AnError (Foreign t2 i2 m2)) = Inr (Some a2, s2)
           \<and> Is s2 (CommonPtr (Some a1)) (CommonPtr (Some a2)) = Some (Inr False)))"
proof -
  have iff: "Is s a b = Some (Inr (a = b \<or> x = y))"
    if "fully_unwrapped s a = Some (Inr x)" "fully_unwrapped s b = Some (Inr y)"
      "go_eq x y \<noteq> Inl UncomparableType"
  proof -
    from that(1,2) have "a = b \<longrightarrow> x = y" by auto
    with Is_fully_unwrapped[OF that] show ?thesis by auto
  qed
  have same: "Is s (CommonPtr p) (CommonPtr p) = Some (Inr True)"
    by (subst Is.simps) (simp add: go_eq_common_left)
  have distinct: "\<exists>a1 s1 a2 s2. New s cs (AnError e1) = Inr (Some a1, s1)
           \<and> New s1 cs' (AnError e2) = Inr (Some a2, s2)
           \<and> Is s2 (CommonPtr (Some a1)) (CommonPtr (Some a2)) = Some (Inr False)"
    if wf: "allocated s" "make_accepts s (MaxStackDepth s)" and nn: "e1 \<noteq> NilErr" "e2 \<noteq> NilErr"
      and x: "fully_unwrapped s e1 = Some (Inr x)" and y: "fully_unwrapped s e2 = Some (Inr y)"
      and ne: "go_eq x y = Inr False"
    for e1 e2 x y
  proof -
    from x y have ux: "unwraps s e1 x" and uy: "unwraps s e2 y"
      by (simp_all add: fully_unwrapped_iff)
    from New_error_unwraps[OF wf nn(1) ux, of cs] obtain a1 s1 where
      new1: "New s cs (AnError e1) = Inr (Some a1, s1)" and wf1: "allocated s1"
      "make_accepts s1 (MaxStackDepth s1)" and top1: "unwraps s1 (CommonPtr (Some a1)) x"
      and keep1: "\<forall>e' x'. unwraps s e' x' \<longrightarrow> unwraps s1 e' x'"
      using wf(2) by auto
    from keep1 uy have uy1: "unwraps s1 e2 y" by blast
    from New_error_unwraps[OF wf1 nn(2) uy1, of cs'] obtain a2 s2 where
      new2: "New s1 cs' (AnError e2) = Inr (Some a2, s2)"
      and top2: "unwraps s2 (CommonPtr (Some a2)) y"
      and keep2: "\<forall>e' x'. unwraps s1 e' x' \<longrightarrow> unwraps s2 e' x'"
      by auto
    from keep2 top1 have "unwraps s2 (CommonPtr (Some a1)) x" by blast
    from Is_unwraps[OF this top2 ne] new1 new2 show ?thesis by blast
  qed
  have plain: "\<exists>a1 s1 a2 s2. New s cs (AnError (Foreign t1 i1 m1)) = Inr (Some a1, s1)
           \<and> New s1 cs' (AnError (Foreign t2 i2 m2)) = Inr (Some a2, s2)
           \<and> Is s2 (CommonPtr (Some a1)) (CommonPtr (Some a2)) = Some (Inr False)"
    if "allocated s" "make_accepts s (MaxStackDepth s)" "Foreign t1 i1 m1 \<noteq> Foreign t2 i2 m2"
      "t1 = t2 \<longrightarrow> comparable t1"
  proof -
    have "go_eq (Foreign t1 i1 m1) (Foreign t2 i2 m2) = Inr False"
      using that(3,4) by (auto simp: go_eq_def)
    with that(1,2) show ?thesis
      by (intro distinct[where x = "Foreign t1 i1 m1" and y = "Foreign t2 i2 m2"])
         (simp_all add: fully_unwrapped.simps)
  qed
  from iff same distinct[of e1 e2 x y] plain show ?thesis by blast
qed

theorem Is_compares_fully_unwrapped_witness:
  "Is thrice (CommonPtr (Some 4)) (CommonPtr (Some 6)) = Some (Inr True)
   \<and> Is thrice (CommonPtr (Some 4)) (Foreign errorString 9 ''boom'') = Some (Inr False)
   \<and> (\<exists>a1 s1 a2 s2. New initial main_stack (AnError boom) = Inr (Some a1, s1)
        \<and> New s1 main_stack (AnError (Foreign errorString 9 ''boom'')) = Inr (Some a2, s2)
        \<and> Is s2 (CommonPtr (Some a1)) (CommonPtr (Some a2)) = Some (Inr False))"
proof -
  have four: "fully_unwrapped thrice (CommonPtr (Some 4)) = Some (Inr boom)"
    by (simp add: fully_unwrapped.simps deref_Some thrice_def twice_def once_def boom_def)
  have six: "fully_unwrapped thrice (CommonPtr (Some 6)) = Some (Inr boom)"
    by (simp add: fully_unwrapped.simps deref_Some thrice_def twice_def once_def boom_def)
  have other: "fully_unwrapped thrice (Foreign errorString 9 ''boom'') =
      Some (Inr (Foreign errorString 9 ''boom''))"
    by (simp add: fully_unwrapped.simps)
  have wf: "allocated initial" "make_accepts initial (MaxStackDepth initial)"
    by (simp_all add: allocated_def initial_def init_state_def)
  note iff = Is_compares_fully_unwrapped[THEN conjunct1, rule_format]
  note plain = Is_compares_fully_unwrapped[THEN conjunct2, THEN conjunct2, THEN conjunct2,
      rule_format]
  have "Is thrice (CommonPtr (Some 4)) (CommonPtr (Some 6)) = Some (Inr True)"
    using iff[of thrice "CommonPtr (Some 4)" boom "CommonPtr (Some 6)" boom] four six
    by (simp add: go_eq_def boom_def errorString_def)
  moreover have
    "Is thrice (CommonPtr (Some 4)) (Foreign errorString 9 ''boom'') = Some (Inr False)"
    using iff[of thrice "CommonPtr (Some 4)" boom "Foreign errorString 9 ''boom''"
        "Foreign errorString 9 ''boom''"] four other
    by (simp add: go_eq_def boom_def errorString_def)
  moreover have "\<exists>a1 s1 a2 s2. New initial main_stack (AnError boom) = Inr (Some a1, s1)
        \<and> New s1 main_stack (AnError (Foreign errorString 9 ''boom'')) = Inr (Some a2, s2)
        \<and> Is s2 (CommonPtr (Some a1)) (CommonPtr (Some a2)) = Some (Inr False)"
    using plain[of initial errorString 0 "''boom''" errorString 9 "''boom''" main_stack
        main_stack] wf
    by (simp add: boom_def errorString_def)
  ultimately show ?thesis by blast
qed

text \<open>
  C5 as the spec words it fails: \<open>e1\<close>, an annotated error, and \<open>e2\<close>, the error it wraps, are
  two different error values, and \<open>Is(New(e1), New(e2))\<close> is true.
\<close>

theorem Is_true_on_distinct_errors:
  "New once main_stack (AnError (CommonPtr (Some 2))) = Inr (Some 4, twice)
   \<and> New twice main_stack (AnError boom) = Inr (Some 6, thrice)
   \<and> CommonPtr (Some 2) \<noteq> boom
   \<and> Is thrice (CommonPtr (Some 4)) (CommonPtr (Some 6)) = Some (Inr True)"
proof -
  have "New once main_stack (AnError (CommonPtr (Some 2))) = Inr (Some 4, twice)"
    by (simp add: New_error initial_def init_state_def once_def twice_def main_stack_def
          eval_nat_numeral)
  moreover have "New twice main_stack (AnError boom) = Inr (Some 6, thrice)"
    by (simp add: New_error initial_def init_state_def once_def twice_def thrice_def
          main_stack_def boom_def eval_nat_numeral)
  moreover have "Is thrice (CommonPtr (Some 4)) (CommonPtr (Some 6)) = Some (Inr True)"
    by (simp add: Is.simps go_eq_def deref_Some thrice_def twice_def once_def boom_def
          errorString_def)
  ultimately show ?thesis by (simp add: boom_def)
qed

section \<open>Which calls return\<close>

lemma StackFrames_returns: "deref s p = Inr c \<Longrightarrow> \<exists>r. StackFrames s p = Inr r"
proof -
  assume "deref s p = Inr c"
  then obtain a where a: "p = Some a" "heap s a = Some c" by (auto simp: deref_Inr)
  show ?thesis
  proof (cases "frames c")
    case None
    from StackFrames_first[OF a(2) None] a(1) show ?thesis by simp
  next
    case (Some fs)
    from StackFrames_cached[OF a(2) Some] a(1) show ?thesis by simp
  qed
qed

lemma Stack_returns: "deref s p = Inr c \<Longrightarrow> \<exists>r. Stack s p = Inr r"
  using StackFrames_returns[of s p c] by (auto simp: Stack_def)

lemma TypeName_returns: "deref s p = Inr c \<Longrightarrow> Err c \<noteq> NilErr \<Longrightarrow> \<exists>r. TypeName s p = Inr r"
  by (cases "Err c") (simp_all add: TypeName_def)

lemma renders_common_deref: "renders s (CommonPtr p) n u \<Longrightarrow> \<exists>c. deref s p = Inr c"
  by (auto elim: renders.cases simp: deref_Some)

lemma Error_returns:
  assumes "fully_unwrapped s (CommonPtr p) = Some (Inr (Foreign t i m))"
  shows "(\<exists>u. Error s p = Some (Inr u)) \<and> (\<exists>r. ErrorStack s p = Some (Inr r))"
proof -
  from assms have "unwraps s (CommonPtr p) (Foreign t i m)"
    by (simp add: fully_unwrapped_iff)
  from unwraps_renders[OF this refl] obtain n u where r: "renders s (CommonPtr p) n u"
    by blast
  from renders_Error[OF r] have msg: "Error s p = Some (Inr u)"
    by (simp add: iface_Error_def)
  from renders_common_deref[OF r] obtain c where "deref s p = Inr c" ..
  from Stack_returns[OF this] obtain st where "Stack s p = Inr st" ..
  with msg have "\<exists>r. ErrorStack s p = Some (Inr r)"
    by (cases st) (simp add: ErrorStack_def)
  with msg show ?thesis by blast
qed

lemma New_returns: "make_accepts s (MaxStackDepth s) \<Longrightarrow> \<exists>r. New s cs e = Inr r"
  using New_fresh[of s cs e] by blast

lemma Wrap_returns: "make_accepts s (MaxStackDepth s) \<Longrightarrow> \<exists>r. Wrap s cs e k = Inr r"
proof (cases "\<exists>p. e = AnError (CommonPtr p)")
  case True
  then show ?thesis by (auto simp: Wrap_annotated)
next
  case False
  assume "make_accepts s (MaxStackDepth s)"
  from Wrap_fresh[OF this, of e cs k] False show ?thesis by blast
qed

lemma Errorf_returns: "make_accepts s (MaxStackDepth s) \<Longrightarrow> \<exists>r. Errorf s cs format ops = Inr r"
  by (simp add: Errorf_def fmt_Errorf_def alloc_def Wrap_foreign del: Sprintf.simps)

lemma New_panics:
  "\<not> make_accepts s (MaxStackDepth s) \<Longrightarrow> New s cs e = Inl MakeSliceLenOutOfRange"
proof (cases e)
  case (AnError x)
  assume "\<not> make_accepts s (MaxStackDepth s)"
  with AnError show ?thesis
    by (cases x) (auto simp: New_def fmt_Errorf_def alloc_def simp del: Sprintf.simps)
next
  case (NonError b)
  assume "\<not> make_accepts s (MaxStackDepth s)"
  with NonError show ?thesis
    by (auto simp: New_def fmt_Errorf_def alloc_def simp del: Sprintf.simps)
qed

text \<open>
  C2, as the code has it. \<open>New\<close>, \<open>Wrap\<close> and \<open>Errorf\<close> return for every argument, nil and
  values that are no errors included, when \<open>make\<close> accepts \<open>MaxStackDepth\<close> as a length (it
  is not negative and not above the allocator's limit), and so does \<open>WrapPrefix\<close> for an
  argument that is no \<open>*CommonError\<close>; otherwise \<open>New\<close> panics. \<open>Wrap\<close> of a \<open>*CommonError\<close>
  returns always. \<open>Unwrap\<close> returns on nil and on an error of another type. When a
  \<open>*CommonError\<close> points to an object, \<open>WrapPrefix\<close>, \<open>Unwrap\<close> and \<open>StackFrames\<close> return on
  it, and \<open>TypeName\<close> when moreover the underlying value is not nil. \<open>Error\<close> and
  \<open>ErrorStack\<close> return when the chain of underlying errors ends in an error that is not
  nil; \<open>Is\<close> when both chains end and the two ends can be compared.
\<close>

theorem operations_return_on_valid_errors:
  "(make_accepts s (MaxStackDepth s) \<longrightarrow>
      (\<exists>r. New s cs e = Inr r) \<and> (\<exists>r. Wrap s cs e k = Inr r)
      \<and> (\<exists>r. Errorf s cs format ops = Inr r)
      \<and> ((\<forall>q. e \<noteq> AnError (CommonPtr q)) \<longrightarrow> (\<exists>r. WrapPrefix s cs e pre k = Inr r)))
   \<and> (\<not> make_accepts s (MaxStackDepth s) \<longrightarrow> New s cs e = Inl MakeSliceLenOutOfRange)
   \<and> (\<exists>r. Wrap s cs (AnError (CommonPtr q)) k = Inr r)
   \<and> (\<exists>r. Unwrap s NilErr = Inr r) \<and> (\<exists>r. Unwrap s (Foreign t i m) = Inr r)
   \<and> (deref s p = Inr c \<longrightarrow>
        (\<exists>r. WrapPrefix s cs (AnError (CommonPtr p)) pre k = Inr r)
        \<and> (\<exists>r. Unwrap s (CommonPtr p) = Inr r)
        \<and> (\<exists>r. StackFrames s p = Inr r)
        \<and> (Err c \<noteq> NilErr \<longrightarrow> (\<exists>r. TypeName s p = Inr r)))
   \<and> (fully_unwrapped s (CommonPtr p) = Some (Inr (Foreign t i m)) \<longrightarrow>
        (\<exists>u. Error s p = Some (Inr u)) \<and> (\<exists>r. ErrorStack s p = Some (Inr r)))
   \<and> (fully_unwrapped s x = Some (Inr x') \<and> fully_unwrapped s y = Some (Inr y')
        \<and> go_eq x' y' \<noteq> Inl UncomparableType \<longrightarrow> (\<exists>b. Is s x y = Some (Inr b)))"
proof -
  have constructors: "(\<exists>r. New s cs e = Inr r) \<and> (\<exists>r. Wrap s cs e k = Inr r)
      \<and> (\<exists>r. Errorf s cs format ops = Inr r)
      \<and> ((\<forall>q. e \<noteq> AnError (CommonPtr q)) \<longrightarrow> (\<exists>r. WrapPrefix s cs e pre k = Inr r))"
    if depth: "make_accepts s (MaxStackDepth s)"
  proof -
    have "\<exists>r. WrapPrefix s cs e pre k = Inr r" if "\<forall>q. e \<noteq> AnError (CommonPtr q)"
      using WrapPrefix_fresh[OF depth that, of cs k pre] by blast
    with New_returns[OF depth, of cs e] Wrap_returns[OF depth, of cs e k]
      Errorf_returns[OF depth, of cs format ops]
    show ?thesis by blast
  qed
  have annotated: "\<exists>r. Wrap s cs (AnError (CommonPtr q)) k = Inr r"
    by (simp add: Wrap_annotated)
  have plain: "(\<exists>r. Unwrap s NilErr = Inr r) \<and> (\<exists>r. Unwrap s (Foreign t i m) = Inr r)"
    by (simp add: Unwrap_def)
  have pointer: "(\<exists>r. WrapPrefix s cs (AnError (CommonPtr p)) pre k = Inr r)
        \<and> (\<exists>r. Unwrap s (CommonPtr p) = Inr r)
        \<and> (\<exists>r. StackFrames s p = Inr r)
        \<and> (Err c \<noteq> NilErr \<longrightarrow> (\<exists>r. TypeName s p = Inr r))"
    if obj: "deref s p = Inr c"
  proof -
    from obj obtain a where a: "p = Some a" "heap s a = Some c" by (auto simp: deref_Inr)
    have "\<exists>r. WrapPrefix s cs (AnError (CommonPtr p)) pre k = Inr r"
      using WrapPrefix_annotated[OF a(2), of cs pre k] a(1) by simp
    moreover have "\<exists>r. Unwrap s (CommonPtr p) = Inr r"
      using obj by (simp add: Unwrap_def)
    ultimately show ?thesis
      using StackFrames_returns[OF obj] TypeName_returns[OF obj] by blast
  qed
  from constructors New_panics[of s cs e] annotated plain pointer
    Error_returns[of s p t i m] Is_fully_unwrapped[of s x x' y y']
  show ?thesis by blast
qed

theorem operations_return_on_valid_errors_witness:
  "(\<exists>r. New twice main_stack (AnError NilErr) = Inr r)
   \<and> (\<exists>r. Wrap twice main_stack (NonError (GoBool True)) (- 1) = Inr r)
   \<and> (\<exists>r. Errorf twice main_stack ''%d%%'' [] = Inr r)
   \<and> (\<exists>r. WrapPrefix twice main_stack (AnError NilErr) ''outer'' 0 = Inr r)
   \<and> (\<exists>r. WrapPrefix twice main_stack (AnError (CommonPtr (Some 4))) ''outer'' 0 = Inr r)
   \<and> (\<exists>r. Unwrap twice NilErr = Inr r)
   \<and> (\<exists>r. Unwrap twice (CommonPtr (Some 4)) = Inr r)
   \<and> (\<exists>r. StackFrames twice (Some 4) = Inr r)
   \<and> (\<exists>r. TypeName twice (Some 4) = Inr r)
   \<and> (\<exists>u. Error twice (Some 4) = Some (Inr u))
   \<and> (\<exists>r. ErrorStack twice (Some 4) = Some (Inr r))
   \<and> (\<exists>b. Is twice (CommonPtr (Some 4)) NilErr = Some (Inr b))
   \<and> New (twice\<lparr>MaxStackDepth := 2 ^ 62\<rparr>) main_stack (AnError NilErr)
       = Inl MakeSliceLenOutOfRange"
proof -
  let ?c = "\<lparr>Err = CommonPtr (Some 2), stack = Some (Slice 3 main_stack), frames = None,
             prefix = ''''\<rparr>"
  have depth: "make_accepts twice (MaxStackDepth twice)"
    by (simp add: twice_def once_def initial_def init_state_def)
  have too_deep: "\<not> make_accepts (twice\<lparr>MaxStackDepth := 2 ^ 62\<rparr>)
      (MaxStackDepth (twice\<lparr>MaxStackDepth := 2 ^ 62\<rparr>))"
    by (simp add: twice_def once_def initial_def init_state_def)
  have obj: "deref twice (Some 4) = Inr ?c"
    by (simp add: deref_Some twice_def)
  have chain: "fully_unwrapped twice (CommonPtr (Some 4)) = Some (Inr boom)"
    by (simp add: fully_unwrapped.simps deref_Some twice_def once_def boom_def)
  have nil: "fully_unwrapped twice NilErr = Some (Inr NilErr)"
    by (simp add: fully_unwrapped.simps)
  note constructors = operations_return_on_valid_errors[where s = twice and cs = main_stack,
      THEN conjunct1, rule_format, OF depth]
  note panics = operations_return_on_valid_errors[
      where s = "twice\<lparr>MaxStackDepth := 2 ^ 62\<rparr>" and cs = main_stack
        and e = "AnError NilErr",
      THEN conjunct2, THEN conjunct1, rule_format, OF too_deep]
  note all = operations_return_on_valid_errors[where s = twice and cs = main_stack
      and pre = "''outer''" and k = 0
      and p = "Some 4" and c = ?c and t = errorString and i = 0 and m = "''boom''"
      and x = "CommonPtr (Some 4)" and x' = boom and y = NilErr and y' = NilErr,
      THEN conjunct2, THEN conjunct2, THEN conjunct2]
  have "\<exists>r. New twice main_stack (AnError NilErr) = Inr r"
    using constructors[where e = "AnError NilErr"] by blast
  moreover have "\<exists>r. Wrap twice main_stack (NonError (GoBool True)) (- 1) = Inr r"
    using constructors[where e = "NonError (GoBool True)" and k = "- 1"] by blast
  moreover have "\<exists>r. Errorf twice main_stack ''%d%%'' [] = Inr r"
    using constructors[where format = "''%d%%''" and ops = "[]"] by blast
  moreover have "\<exists>r. WrapPrefix twice main_stack (AnError NilErr) ''outer'' 0 = Inr r"
    using constructors[where e = "AnError NilErr" and pre = "''outer''" and k = 0] by simp
  moreover have "(\<exists>r. Unwrap twice NilErr = Inr r)
      \<and> (\<exists>r. WrapPrefix twice main_stack (AnError (CommonPtr (Some 4))) ''outer'' 0 = Inr r)
      \<and> (\<exists>r. Unwrap twice (CommonPtr (Some 4)) = Inr r)
      \<and> (\<exists>r. StackFrames twice (Some 4) = Inr r)
      \<and> (\<exists>r. TypeName twice (Some 4) = Inr r)
      \<and> (\<exists>u. Error twice (Some 4) = Some (Inr u))
      \<and> (\<exists>r. ErrorStack twice (Some 4) = Some (Inr r))
      \<and> (\<exists>b. Is twice (CommonPtr (Some 4)) NilErr = Some (Inr b))"
    using all obj chain nil by (simp add: boom_def go_eq_def)
  ultimately show ?thesis using panics by blast
qed

text \<open>
  C2 as the spec words it fails: a nil \<open>*CommonError\<close> is a value of type \<open>error\<close>, and
  \<open>Unwrap\<close>, \<open>Error\<close>, \<open>ErrorStack\<close>, \<open>TypeName\<close>, \<open>StackFrames\<close> and \<open>WrapPrefix\<close> panic on it
  with a nil pointer dereference, as \<open>Is\<close> does when it has to read through it. \<open>Error\<close> also
  panics on \<open>&CommonError{}\<close>, whose underlying value is nil; \<open>Is\<close> panics on two errors of
  one type that has no \<open>==\<close>; and \<open>New\<close> and \<open>WrapPrefix\<close> panic in \<open>make\<close> when the program
  has set \<open>MaxStackDepth\<close> below zero or above the allocator's limit.
\<close>

theorem operations_panic_on_nil_pointer:
  "Unwrap initial (CommonPtr None) = Inl NilDereference
   \<and> Error initial None = Some (Inl NilDereference)
   \<and> ErrorStack initial None = Some (Inl NilDereference)
   \<and> TypeName initial None = Inl NilDereference
   \<and> StackFrames initial None = Inl NilDereference
   \<and> WrapPrefix initial main_stack (AnError (CommonPtr None)) ''outer'' 0 = Inl NilDereference
   \<and> Is initial (CommonPtr None) boom = Some (Inl NilDereference)
   \<and> Error (initial\<lparr>next_addr := 2,
                     heap := [1 \<mapsto> \<lparr>Err = NilErr, stack = None, frames = None,
                                      prefix = ''''\<rparr>]\<rparr>) (Some 1)
       = Some (Inl NilDereference)
   \<and> Is initial (Foreign (Named ''main'' ''errorList'' False) 1 ''first'')
                 (Foreign (Named ''main'' ''errorList'' False) 2 ''second'')
       = Some (Inl UncomparableType)
   \<and> New (initial\<lparr>MaxStackDepth := - 1\<rparr>) main_stack (AnError boom)
       = Inl MakeSliceLenOutOfRange
   \<and> New (initial\<lparr>MaxStackDepth := 2 ^ 62\<rparr>) main_stack (AnError boom)
       = Inl MakeSliceLenOutOfRange
   \<and> WrapPrefix (initial\<lparr>MaxStackDepth := - 1\<rparr>) main_stack (AnError boom) ''outer'' 0
       = Inl MakeSliceLenOutOfRange"
  by (simp add: Unwrap_def deref_def Error.simps ErrorStack_def TypeName_def StackFrames_def
        WrapPrefix_def Wrap_def Is.simps go_eq_def boom_def New_def initial_def init_state_def)

end
